theory Spec2Isabelle
  imports Complex_Main "HOL-Library.Sublist" "HOL-Library.AList"
begin

section \<open>Strings as the scripts use them\<close>

text \<open>
  The scripts under \<^verbatim>\<open>src/tools\<close> read spreadsheet cells and remote replies as Python
  \<^verbatim>\<open>str\<close> values and treat them with \<^verbatim>\<open>strip\<close>, \<^verbatim>\<open>lower\<close>, \<^verbatim>\<open>splitlines\<close>, \<^verbatim>\<open>replace\<close>, the
  \<^verbatim>\<open>in\<close> test and two regular expressions.  A string is a \<^typ>\<open>string\<close> here; the character
  classes below are Python's on ASCII text, which is the text this model covers (a byte
  above 127 is neither a digit, a letter nor white space here, whereas Python classifies
  the code point it belongs to).
\<close>

definition is_digit :: "char \<Rightarrow> bool" where
  "is_digit c = (c \<in> set ''0123456789'')"

definition is_alpha :: "char \<Rightarrow> bool" where
  "is_alpha c = (c \<in> set ''abcdefghijklmnopqrstuvwxyzABCDEFGHIJKLMNOPQRSTUVWXYZ'')"

text \<open>The class \<^verbatim>\<open>\w\<close>: letters, digits and the underscore.\<close>

definition is_word :: "char \<Rightarrow> bool" where
  "is_word c = (is_alpha c \<or> is_digit c \<or> c = CHR ''_'')"

text \<open>
  White space of \<^verbatim>\<open>str.strip()\<close> and of \<^verbatim>\<open>\s\<close>: tab, line feed, vertical tab, form feed,
  carriage return, the four separators \<^verbatim>\<open>0x1c\<close> to \<^verbatim>\<open>0x1f\<close>, and the space.
\<close>

definition is_space :: "char \<Rightarrow> bool" where
  "is_space c = (c \<in> set [CHR 0x09, CHR 0x0A, CHR 0x0B, CHR 0x0C, CHR 0x0D,
                            CHR 0x1C, CHR 0x1D, CHR 0x1E, CHR 0x1F, CHR 0x20])"

definition lower_char :: "char \<Rightarrow> char" where
  "lower_char c =
     (case map_of (zip ''ABCDEFGHIJKLMNOPQRSTUVWXYZ'' ''abcdefghijklmnopqrstuvwxyz'') c of
        Some l \<Rightarrow> l
      | None \<Rightarrow> c)"

definition lower :: "string \<Rightarrow> string" where
  "lower s = map lower_char s"

definition strip :: "string \<Rightarrow> string" where
  "strip s = rev (dropWhile is_space (rev (dropWhile is_space s)))"

text \<open>The test \<^verbatim>\<open>sub in s\<close>.\<close>

fun contains :: "string \<Rightarrow> string \<Rightarrow> bool" where
  "contains sub [] = (sub = [])"
| "contains sub (c # cs) = (prefix sub (c # cs) \<or> contains sub cs)"

text \<open>
  \<^verbatim>\<open>str.splitlines()\<close>: a line ends at line feed, carriage return (with a line feed right
  after it, if any), vertical tab, form feed, or one of the separators \<^verbatim>\<open>0x1c\<close> to \<^verbatim>\<open>0x1e\<close>;
  the terminators are dropped, and text that ends in a terminator has no empty last line.
\<close>

definition is_linebreak :: "char \<Rightarrow> bool" where
  "is_linebreak c = (c \<in> set [CHR 0x0A, CHR 0x0B, CHR 0x0C, CHR 0x0D, CHR 0x1C, CHR 0x1D, CHR 0x1E])"

fun splitlines_from :: "string \<Rightarrow> string \<Rightarrow> string list" where
  "splitlines_from cur [] = (if cur = [] then [] else [cur])"
| "splitlines_from cur (c # cs) =
     (if c = CHR 0x0D then
        (case cs of
           [] \<Rightarrow> [cur]
         | d # ds \<Rightarrow> if d = CHR 0x0A then cur # splitlines_from [] ds
                     else cur # splitlines_from [] (d # ds))
      else if is_linebreak c then cur # splitlines_from [] cs
      else splitlines_from (cur @ [c]) cs)"

definition splitlines :: "string \<Rightarrow> string list" where
  "splitlines s = splitlines_from [] s"

text \<open>
  The exceptions that end a run of a script: an exception of the remote call that no
  handler takes, an index outside the frame or outside a list, a \<^verbatim>\<open>ValueError\<close>, and an
  error of the operating system (a missing file or directory).
\<close>

datatype crash = RemoteError string | IndexError nat | ValueError | OSError

text \<open>
  \<^verbatim>\<open>str(n)\<close> of a row index, and \<^verbatim>\<open>int(digits)\<close> of a run of decimal digits.  The
  interpreter refuses a run of more than 4300 digits, leading zeros counted, with
  \<^verbatim>\<open>ValueError\<close> (the default of \<^verbatim>\<open>sys.int_max_str_digits\<close> since Python 3.11).
\<close>

fun str_nat :: "nat \<Rightarrow> string" where
  "str_nat n =
     (if n < 10 then [''0123456789'' ! n]
      else str_nat (n div 10) @ [''0123456789'' ! (n mod 10)])"

definition digit_val :: "char \<Rightarrow> nat" where
  "digit_val c = of_char c - 48"

definition digits_value :: "string \<Rightarrow> nat" where
  "digits_value ds = foldl (\<lambda>acc d. 10 * acc + digit_val d) 0 ds"

definition max_str_digits :: nat where
  "max_str_digits = 4300"

definition int_of_digits :: "string \<Rightarrow> crash + nat" where
  "int_of_digits ds =
     (if max_str_digits < length ds then Inl ValueError else Inr (digits_value ds))"

text \<open>\<^verbatim>\<open>sep.join(parts)\<close>.\<close>

fun join :: "string \<Rightarrow> string list \<Rightarrow> string" where
  "join sep [] = []"
| "join sep [p] = p"
| "join sep (p # q # ps) = p @ sep @ join sep (q # ps)"

section \<open>The two regular expressions\<close>

text \<open>
  \<^verbatim>\<open>LABEL_RE = re.compile(r"\bans\d+\b", flags=re.IGNORECASE)\<close>.
  \<open>label_at pw s\<close> is the match that starts at the first character of \<open>s\<close>, where \<open>pw\<close>
  says whether the character before \<open>s\<close> is a word character: the match and the text
  after it.  The first \<^verbatim>\<open>\b\<close> holds when no word character comes before (the \<^verbatim>\<open>a\<close> after it
  is one); \<^verbatim>\<open>\d+\<close> takes every digit, since giving one back would leave the second \<^verbatim>\<open>\b\<close>
  between two digits; the second \<^verbatim>\<open>\b\<close> holds when the text ends or goes on with a character
  that is not a word character.
\<close>

definition label_at :: "bool \<Rightarrow> string \<Rightarrow> (string \<times> string) option" where
  "label_at pw s =
     (case s of
        a # n # z # rest \<Rightarrow>
          (let ds = takeWhile is_digit rest; r = dropWhile is_digit rest in
           if \<not> pw \<and> lower_char a = CHR ''a'' \<and> lower_char n = CHR ''n''
              \<and> lower_char z = CHR ''s'' \<and> ds \<noteq> []
              \<and> (case r of [] \<Rightarrow> True | c # _ \<Rightarrow> \<not> is_word c)
           then Some (a # n # z # ds, r) else None)
      | _ \<Rightarrow> None)"

lemma label_at_shorter: "label_at pw s = Some (m, r) \<Longrightarrow> length r < length s"
  by (auto simp: label_at_def Let_def split: list.splits if_splits
      intro: le_less_trans [OF length_dropWhile_le])

text \<open>
  \<^verbatim>\<open>LABEL_RE.findall\<close> scans from the left and goes on after each match; \<^verbatim>\<open>LABEL_RE.search\<close>
  stops at the first match.
\<close>

function label_scan :: "bool \<Rightarrow> string \<Rightarrow> string list" where
  "label_scan pw [] = []"
| "label_scan pw (c # cs) =
     (case label_at pw (c # cs) of
        Some (m, r) \<Rightarrow> m # label_scan True r
      | None \<Rightarrow> label_scan (is_word c) cs)"
  by pat_completeness auto
termination
  by (relation "measure (\<lambda>(pw, s). length s)") (auto dest: label_at_shorter)

fun label_search_from :: "bool \<Rightarrow> string \<Rightarrow> string option" where
  "label_search_from pw [] = None"
| "label_search_from pw (c # cs) =
     (case label_at pw (c # cs) of
        Some (m, r) \<Rightarrow> Some m
      | None \<Rightarrow> label_search_from (is_word c) cs)"

definition LABEL_RE_findall :: "string \<Rightarrow> string list" where
  "LABEL_RE_findall s = label_scan False s"

definition LABEL_RE_search :: "string \<Rightarrow> string option" where
  "LABEL_RE_search s = label_search_from False s"

text \<open>
  \<^verbatim>\<open>LINE_RE = re.compile(r"^\s*ID=(\d+)\s+(\bans\d+\b)\s*$", flags=re.IGNORECASE)\<close>,
  used with \<^verbatim>\<open>match\<close> on one line: the two groups of the match.  The flag covers the whole
  pattern, so the letters of \<^verbatim>\<open>ID\<close> match in either case, as those of \<^verbatim>\<open>ans\<close> do.  Each
  starred or plussed class takes all it can, since the piece after it starts with a
  character outside the class.
\<close>

definition LINE_RE_match :: "string \<Rightarrow> (string \<times> string) option" where
  "LINE_RE_match line =
     (case dropWhile is_space line of
        i # d # e # s2 \<Rightarrow>
          (let g1 = takeWhile is_digit s2;
               s3 = dropWhile is_digit s2;
               s4 = dropWhile is_space s3 in
           if lower_char i = CHR ''i'' \<and> lower_char d = CHR ''d'' \<and> e = CHR ''=''
              \<and> g1 \<noteq> [] \<and> length s4 < length s3
           then
             (case s4 of
                a # n # z # s5 \<Rightarrow>
                  (let ds = takeWhile is_digit s5; s6 = dropWhile is_digit s5 in
                   if lower_char a = CHR ''a'' \<and> lower_char n = CHR ''n''
                      \<and> lower_char z = CHR ''s'' \<and> ds \<noteq> []
                      \<and> dropWhile is_space s6 = []
                   then Some (g1, a # n # z # ds) else None)
              | _ \<Rightarrow> None)
           else None)
      | _ \<Rightarrow> None)"

section \<open>Label extraction and the cleanup of a single-row reply\<close>

text \<open>
  \<^verbatim>\<open>extract_labels\<close> (batch classifier) and \<^verbatim>\<open>extract_labels_from_text\<close> (single-row
  classifier): the loop over the matches keeps the set \<open>seen\<close> and the list \<open>ordered\<close>.
\<close>

fun extract_loop :: "string list \<Rightarrow> string set \<Rightarrow> string list \<Rightarrow> string list" where
  "extract_loop [] seen ordered = ordered"
| "extract_loop (lab # labels) seen ordered =
     (let lab' = lower lab in
      if lab' \<notin> seen then extract_loop labels (insert lab' seen) (ordered @ [lab'])
      else extract_loop labels seen ordered)"

definition default_labels :: "string list" where
  "default_labels = [''ans0'', ''ans1'', ''ans2'']"

definition extract_labels :: "string \<Rightarrow> string list" where
  "extract_labels text =
     (let ordered = extract_loop (LABEL_RE_findall text) {} [] in
      if ordered = [] then default_labels else ordered)"

definition extract_labels_from_text :: "string \<Rightarrow> string list" where
  "extract_labels_from_text text =
     (let ordered = extract_loop (LABEL_RE_findall text) {} [] in
      if ordered = [] then [''ans0'', ''ans1'', ''ans2''] else ordered)"

text \<open>
  The cleanup both classifiers apply to a single-row reply:
  \<^verbatim>\<open>m = LABEL_RE.search(out2); m.group(0).lower() if m else out2.strip()\<close>.
\<close>

definition clean_label :: "string \<Rightarrow> string" where
  "clean_label out2 =
     (case LABEL_RE_search out2 of Some m \<Rightarrow> lower m | None \<Rightarrow> strip out2)"

section \<open>The parser of a batch reply\<close>

text \<open>
  \<^verbatim>\<open>parse_batch_output\<close> fills a dictionary line by line.  A Python dictionary keeps its
  keys in insertion order and an assignment to a key it has replaces the value in place:
  that is \<^const>\<open>AList.update\<close> on an association list.  The conversion of the identifier is
  the one place where the function can raise.
\<close>

fun parse_lines ::
  "string list \<Rightarrow> (nat \<times> string) list \<Rightarrow> crash + (nat \<times> string) list" where
  "parse_lines [] results = Inr results"
| "parse_lines (line # lines) results =
     (case LINE_RE_match line of
        Some (g1, g2) \<Rightarrow>
          (case int_of_digits g1 of
             Inl c \<Rightarrow> Inl c
           | Inr ridx \<Rightarrow> parse_lines lines (AList.update ridx (lower g2) results))
      | None \<Rightarrow> parse_lines lines results)"

definition parse_batch_output :: "string \<Rightarrow> crash + (nat \<times> string) list" where
  "parse_batch_output text = parse_lines (splitlines text) []"

section \<open>The table, the remote endpoint and the call log\<close>

text \<open>
  A cell of the data frame is missing (\<^verbatim>\<open>NaN\<close>) or holds text; a cell with a number or a
  date stands for the text \<^verbatim>\<open>str\<close> gives of it, which is all the scripts use.  A row is its
  cells in columns A and B (the only columns the scripts below read or write), and its
  position in the list is its index.  A sheet read with one column gets a column B of
  empty strings before any row is looked at; the table here is the frame after that step.
\<close>

datatype cell = NaN | Str string

definition isna :: "cell \<Rightarrow> bool" where
  "isna c = (c = NaN)"

fun cell_str :: "cell \<Rightarrow> string" where
  "cell_str NaN = ''nan''"
| "cell_str (Str s) = s"

type_synonym table = "(cell \<times> cell) list"

text \<open>\<^verbatim>\<open>pd.isna(val) or not str(val).strip()\<close> on column A.\<close>

definition blank :: "cell \<Rightarrow> bool" where
  "blank val = (isna val \<or> strip (cell_str val) = [])"

text \<open>\<^verbatim>\<open>not pd.isna(df.iat[idx, 1]) and str(df.iat[idx, 1]).strip()\<close> on column B.\<close>

definition filled :: "cell \<Rightarrow> bool" where
  "filled c = (\<not> isna c \<and> strip (cell_str c) \<noteq> [])"

definition colA :: "table \<Rightarrow> nat \<Rightarrow> cell" where
  "colA df idx = fst (df ! idx)"

definition colB :: "table \<Rightarrow> nat \<Rightarrow> cell" where
  "colB df idx = snd (df ! idx)"

text \<open>\<^verbatim>\<open>df.iat[idx, 1] = v\<close> for an index inside the frame.\<close>

definition set_colB :: "table \<Rightarrow> nat \<Rightarrow> string \<Rightarrow> table" where
  "set_colB df idx v = df[idx := (fst (df ! idx), Str v)]"

text \<open>
  The remote endpoint is outside the repository.  It is a parameter of the model: a
  function from the prompts sent so far and the prompt sent now to what the call does,
  which is to return a response object or to raise an exception with a message.  The run
  keeps a record of its calls, each with the row indices it was made for (the indices are
  bookkeeping of the model: no function reads them back).  The model name is fixed for a
  run and is part of the endpoint.
\<close>

record response =
  output_text :: "string option"
  output_items :: "(string \<times> string) list list"

datatype reply = Returns response | Raises string

type_synonym remote = "string list \<Rightarrow> string \<Rightarrow> reply"

type_synonym call = "nat list \<times> string"

text \<open>
  The text of a response, as \<^verbatim>\<open>call_openai\<close> takes it: \<^verbatim>\<open>output_text\<close> when it is there and
  not empty, else the texts of the content pieces of type \<^verbatim>\<open>output_text\<close> or \<^verbatim>\<open>text\<close>.
\<close>

definition response_text :: "response \<Rightarrow> string" where
  "response_text resp =
     (let out = (case output_text resp of None \<Rightarrow> [] | Some t \<Rightarrow> t);
          out = (if out = [] then
                   strip (concat (map snd (filter
                     (\<lambda>(ty, tx). (ty = ''output_text'' \<or> ty = ''text'') \<and> tx \<noteq> [])
                     (concat (output_items resp)))))
                 else out)
      in strip out)"

definition call_openai ::
  "remote \<Rightarrow> nat list \<Rightarrow> string \<Rightarrow> call list \<Rightarrow> (string + string) \<times> call list" where
  "call_openai remote rows prompt calls =
     (case remote (map snd calls) prompt of
        Raises e \<Rightarrow> (Inl e, calls @ [(rows, prompt)])
      | Returns resp \<Rightarrow> (Inr (response_text resp), calls @ [(rows, prompt)]))"

section \<open>The batch classifier\<close>

type_synonym task = "nat \<times> string \<times> string list"

text \<open>
  The prompts.  The Norwegian letters of the source are written as their UTF-8 bytes.
\<close>

definition batch_header :: string where
  "batch_header =
     ''Du er en streng klassifikator.'' @ [CHR 0x0A] @
     ''Oppgave: For hvert element skal du returnere KUN '' @ [CHR 0xC3, CHR 0xA9] @
     ''n etikett fra listen angitt.'' @ [CHR 0x0A] @
     ''Output-format: '' @ [CHR 0xC3, CHR 0x89] @ ''N linje per element, n'' @
     [CHR 0xC3, CHR 0xB8] @ ''yaktig slik: '' @ [CHR 0x27] @ ''ID=<id> <etikett>'' @
     [CHR 0x27, CHR 0x0A] @
     ''Ingen ekstra tekst, ingen forklaring, ingen punktum.'' @ [CHR 0x0A]"

definition batch_footer :: string where
  "batch_footer =
     [CHR 0x0A] @ ''Returner n'' @ [CHR 0xC3, CHR 0xA5] @ '' kun resultatlinjene:'' @
     [CHR 0x0A] @ ''Eksempel: ID=12 ans1''"

definition item_line :: "task \<Rightarrow> string" where
  "item_line t =
     (case t of (ridx, text, labels) \<Rightarrow>
        ''ID='' @ str_nat ridx @ '' | Tillatte: '' @ join '', '' labels @ '' | Tekst: '' @ text)"

definition build_batch_prompt :: "task list \<Rightarrow> string" where
  "build_batch_prompt items =
     batch_header @ join [CHR 0x0A] (([CHR 0x0A] @ ''ELEMENTER:'') # map item_line items)
       @ batch_footer"

definition single_prompt :: "string \<Rightarrow> string list \<Rightarrow> string" where
  "single_prompt text labels =
     ''Du er en streng klassifikator.'' @ [CHR 0x0A] @
     ''Returner KUN '' @ [CHR 0xC3, CHR 0xA9] @ ''n etikett, uten ekstra tekst.'' @ [CHR 0x0A] @
     ''Tillatte: '' @ join '', '' labels @ [CHR 0x0A] @
     ''Tekst:'' @ [CHR 0x0A] @ text @ [CHR 0x0A, CHR 0x0A] @
     ''Returner kun '' @ [CHR 0xC3, CHR 0xA9] @ ''n: '' @ join '', '' labels"

text \<open>
  The fallback loop of \<^verbatim>\<open>classify_batch\<close>: a row of the batch whose index is not a key of
  \<open>parsed\<close> gets a call of its own; the reply is cleaned, an exception becomes an error
  marker, and either way the index becomes a key.
\<close>

fun fallback ::
  "remote \<Rightarrow> task list \<Rightarrow> (nat \<times> string) list \<Rightarrow> call list
     \<Rightarrow> (nat \<times> string) list \<times> call list" where
  "fallback remote [] parsed calls = (parsed, calls)"
| "fallback remote ((ridx, text, labels) # rest) parsed calls =
     (if map_of parsed ridx = None then
        (case call_openai remote [ridx] (single_prompt text labels) calls of
           (Inr out2, calls') \<Rightarrow>
             fallback remote rest (AList.update ridx (clean_label out2) parsed) calls'
         | (Inl e, calls') \<Rightarrow>
             fallback remote rest (AList.update ridx (''ERROR: '' @ e) parsed) calls')
      else fallback remote rest parsed calls)"

text \<open>
  \<^verbatim>\<open>classify_batch\<close>.  Neither the batch call nor the parser is inside a \<^verbatim>\<open>try\<close>: an
  exception of either leaves the function (\<open>Inl\<close>).
\<close>

definition classify_batch ::
  "remote \<Rightarrow> task list \<Rightarrow> call list \<Rightarrow> (crash + (nat \<times> string) list) \<times> call list" where
  "classify_batch remote batch calls =
     (case call_openai remote (map fst batch) (build_batch_prompt batch) calls of
        (Inl e, calls1) \<Rightarrow> (Inl (RemoteError e), calls1)
      | (Inr out, calls1) \<Rightarrow>
          (case parse_batch_output out of
             Inl c \<Rightarrow> (Inl c, calls1)
           | Inr parsed \<Rightarrow>
               if \<not> set (map fst batch) \<subseteq> set (map fst parsed) then
                 (case fallback remote batch parsed calls1 of
                    (parsed', calls2) \<Rightarrow> (Inr parsed', calls2))
               else (Inr parsed, calls1)))"

text \<open>
  \<^verbatim>\<open>chunked(seq, size)\<close> walks \<^verbatim>\<open>range(0, len(seq), size)\<close>: slices of \<open>n\<close> items for a
  positive size, nothing for a negative one, and \<^verbatim>\<open>ValueError\<close> for zero.
\<close>

function chunks :: "'a list \<Rightarrow> nat \<Rightarrow> 'a list list" where
  "chunks seq n =
     (if n = 0 \<or> seq = [] then [] else take n seq # chunks (drop n seq) n)"
  by pat_completeness auto
termination
  by (relation "measure (\<lambda>(seq, n). length seq)") auto

definition chunked :: "'a list \<Rightarrow> int \<Rightarrow> crash + 'a list list" where
  "chunked seq n =
     (if n = 0 then Inl ValueError
      else if n < 0 then Inr []
      else Inr (chunks seq (nat n)))"

text \<open>
  The task collection loop of the batch script: a row becomes a task when column A is not
  blank and column B is not filled.
\<close>

fun collect_tasks :: "table \<Rightarrow> (nat \<times> cell) list \<Rightarrow> task list \<Rightarrow> task list" where
  "collect_tasks df [] tasks = tasks"
| "collect_tasks df ((idx, val) # rest) tasks =
     (if blank val then collect_tasks df rest tasks
      else if filled (colB df idx) then collect_tasks df rest tasks
      else collect_tasks df rest
             (tasks @ [(idx, strip (cell_str val), extract_labels (strip (cell_str val)))]))"

text \<open>\<^verbatim>\<open>df.iloc[:, 0].items()\<close>: the cells of column A with their indices.\<close>

definition colA_items :: "table \<Rightarrow> (nat \<times> cell) list" where
  "colA_items df = zip [0..<length df] (map fst df)"

text \<open>
  The write loop \<^verbatim>\<open>for ridx, label in results.items(): df.iat[ridx, 1] = label\<close>.  An
  index outside the frame raises \<^verbatim>\<open>IndexError\<close>.
\<close>

fun write_results :: "table \<Rightarrow> (nat \<times> string) list \<Rightarrow> crash + table" where
  "write_results df [] = Inr df"
| "write_results df ((ridx, label) # rest) =
     (if ridx < length df then write_results (set_colB df ridx label) rest
      else Inl (IndexError ridx))"

fun process_batches ::
  "remote \<Rightarrow> task list list \<Rightarrow> table \<Rightarrow> call list \<Rightarrow> (crash + table) \<times> call list" where
  "process_batches remote [] df calls = (Inr df, calls)"
| "process_batches remote (batch # batches) df calls =
     (case classify_batch remote batch calls of
        (Inl c, calls') \<Rightarrow> (Inl c, calls')
      | (Inr results, calls') \<Rightarrow>
          (case write_results df results of
             Inl c \<Rightarrow> (Inl c, calls')
           | Inr df' \<Rightarrow> process_batches remote batches df' calls'))"

text \<open>
  The body of the batch script between loading and saving: the final frame, or the
  exception that ends the process before anything is saved, and the calls made.
\<close>

definition batch_run :: "remote \<Rightarrow> int \<Rightarrow> table \<Rightarrow> (crash + table) \<times> call list" where
  "batch_run remote batch_size df =
     (case chunked (collect_tasks df (colA_items df) []) batch_size of
        Inl c \<Rightarrow> (Inl c, [])
      | Inr batches \<Rightarrow> process_batches remote batches df [])"

section \<open>The Gemini script: retry with backoff, and the row loop\<close>

text \<open>
  What one call of \<^verbatim>\<open>generate_content\<close> does: it returns a response (its \<^verbatim>\<open>text\<close>, and the
  texts of the parts of its candidates), it raises an exception with a message, or the
  user's interrupt arrives while it runs.
\<close>

record gemini_response =
  resp_text :: "string option"
  resp_parts :: "string list"

datatype gemini_reply = Answers gemini_response | Fails string | Interrupted

type_synonym gemini_remote = "string list \<Rightarrow> string \<Rightarrow> gemini_reply"

datatype exn = Exception string | KeyboardInterrupt

text \<open>
  The world of a run: the calls made and the waits slept in the backoff, both in order.
  A wait is a real number; \<^verbatim>\<open>random.uniform(0.0, 1.0)\<close> is a parameter \<open>jitter\<close>, whose
  \<open>k\<close>-th value is the draw before the \<open>k\<close>-th sleep of the run.  Progress lines and the
  pacing sleeps of the row loop change neither the table nor the calls and are left out.
\<close>

record world =
  w_calls :: "call list"
  w_sleeps :: "real list"

text \<open>
  The answer \<^verbatim>\<open>call_gemini_safe\<close> takes from a response: \<^verbatim>\<open>resp.text\<close> stripped when it is
  there and not empty, else the joined texts of the parts, stripped, and
  \<^verbatim>\<open>"(empty response)"\<close> when that is empty.
\<close>

definition parts_text :: "gemini_response \<Rightarrow> string" where
  "parts_text resp =
     (let joined = strip (concat (filter (\<lambda>t. t \<noteq> []) (resp_parts resp))) in
      if joined = [] then ''(empty response)'' else joined)"

definition gemini_text :: "gemini_response \<Rightarrow> string" where
  "gemini_text resp =
     (case resp_text resp of
        None \<Rightarrow> parts_text resp
      | Some t \<Rightarrow> if t \<noteq> [] then strip t else parts_text resp)"

text \<open>The markers \<^verbatim>\<open>call_gemini_safe\<close> looks for in the lowered message, in its order.\<close>

definition rate_limited :: "string \<Rightarrow> bool" where
  "rate_limited msg =
     (contains ''429'' msg \<or> contains ''rate'' msg \<or> contains ''quota'' msg
      \<or> contains ''resource exhausted'' msg)"

definition safety_blocked :: "string \<Rightarrow> bool" where
  "safety_blocked msg = (contains ''safety'' msg \<or> contains ''blocked'' msg)"

definition too_many_retries :: string where
  "too_many_retries = ''ERROR: too many retries due to rate limits''"

text \<open>
  The loop \<^verbatim>\<open>for attempt in range(retries)\<close>, with the number of the attempt and the
  attempts left.
\<close>

fun attempts ::
  "gemini_remote \<Rightarrow> (nat \<Rightarrow> real) \<Rightarrow> nat list \<Rightarrow> string \<Rightarrow> nat \<Rightarrow> nat \<Rightarrow> world
     \<Rightarrow> (exn + string) \<times> world" where
  "attempts remote jitter rows prompt attempt 0 w = (Inr too_many_retries, w)"
| "attempts remote jitter rows prompt attempt (Suc left) w =
     (let w1 = w\<lparr>w_calls := w_calls w @ [(rows, prompt)]\<rparr> in
      case remote (map snd (w_calls w)) prompt of
        Answers resp \<Rightarrow> (Inr (gemini_text resp), w1)
      | Interrupted \<Rightarrow> (Inl KeyboardInterrupt, w1)
      | Fails e \<Rightarrow>
          (let msg = lower e in
           if rate_limited msg then
             (let wait = min (2 ^ attempt + jitter (length (w_sleeps w1))) 30 in
              attempts remote jitter rows prompt (Suc attempt) left
                (w1\<lparr>w_sleeps := w_sleeps w1 @ [wait]\<rparr>))
           else if safety_blocked msg then (Inr ''(blocked)'', w1)
           else (Inl (Exception e), w1)))"

definition call_gemini_safe ::
  "gemini_remote \<Rightarrow> (nat \<Rightarrow> real) \<Rightarrow> nat list \<Rightarrow> string \<Rightarrow> nat \<Rightarrow> world
     \<Rightarrow> (exn + string) \<times> world" where
  "call_gemini_safe remote jitter rows prompt retries w =
     attempts remote jitter rows prompt 0 retries w"

text \<open>
  The row loop of \<^verbatim>\<open>main\<close>: a blank prompt and a filled answer are skipped; the answer or
  an error marker is written; an interrupt leaves the loop.
\<close>

fun gemini_rows ::
  "gemini_remote \<Rightarrow> (nat \<Rightarrow> real) \<Rightarrow> (nat \<times> cell) list \<Rightarrow> table \<Rightarrow> world
     \<Rightarrow> table \<times> world" where
  "gemini_rows remote jitter [] df w = (df, w)"
| "gemini_rows remote jitter ((idx, val) # rest) df w =
     (if blank val then gemini_rows remote jitter rest df w
      else if filled (colB df idx) then gemini_rows remote jitter rest df w
      else
        (case call_gemini_safe remote jitter [idx] (strip (cell_str val)) 6 w of
           (Inr answer, w') \<Rightarrow>
             gemini_rows remote jitter rest
               (set_colB df idx (if answer \<noteq> [] then answer else ''(empty response)'')) w'
         | (Inl KeyboardInterrupt, w') \<Rightarrow> (df, w')
         | (Inl (Exception e), w') \<Rightarrow>
             gemini_rows remote jitter rest (set_colB df idx (''ERROR: '' @ e)) w'))"

definition gemini_run :: "gemini_remote \<Rightarrow> (nat \<Rightarrow> real) \<Rightarrow> table \<Rightarrow> table \<times> world" where
  "gemini_run remote jitter df =
     gemini_rows remote jitter (colA_items df) df \<lparr>w_calls = [], w_sleeps = []\<rparr>"

section \<open>The single-row classifier\<close>

text \<open>
  \<^verbatim>\<open>call_openai_strict_label\<close> is wrapped by a retry decorator of a library; what it does
  after the library's retries is a parameter here: the label text it returns, or the
  message of the exception it raises.  The loop has no resume test.
\<close>

definition build_prompt :: "string \<Rightarrow> string list \<Rightarrow> string" where
  "build_prompt row_text allowed_labels =
     ''Du er en streng klassifikator. '' @
     ''Returner KUN '' @ [CHR 0xC3, CHR 0xA9] @ ''n etikett, n'' @ [CHR 0xC3, CHR 0xB8] @
     ''yaktig som skrevet, uten forklaring, uten ekstra tegn.'' @ [CHR 0x0A, CHR 0x0A] @
     ''Velg hvilken av disse etikettene som passer best til teksten: '' @
     join '', '' allowed_labels @ ''.'' @ [CHR 0x0A, CHR 0x0A] @
     ''Tekst:'' @ [CHR 0x0A] @ row_text @ [CHR 0x0A, CHR 0x0A] @
     ''Returner kun '' @ [CHR 0xC3, CHR 0xA9] @ ''n: '' @ join '', '' allowed_labels"

fun classify_rows ::
  "(string \<Rightarrow> string + string) \<Rightarrow> (nat \<times> cell) list \<Rightarrow> table \<Rightarrow> table" where
  "classify_rows labeller [] df = df"
| "classify_rows labeller ((idx, val) # rest) df =
     (if blank val then classify_rows labeller rest df
      else
        (case labeller (build_prompt (strip (cell_str val))
                          (extract_labels_from_text (strip (cell_str val)))) of
           Inr label \<Rightarrow> classify_rows labeller rest (set_colB df idx (clean_label label))
         | Inl e \<Rightarrow> classify_rows labeller rest (set_colB df idx (''ERROR: '' @ e))))"

section \<open>Saving\<close>

text \<open>
  \<^verbatim>\<open>str.replace(old, new)\<close>: every occurrence of \<open>old\<close>, from the left, without overlap.
\<close>

function replace :: "string \<Rightarrow> string \<Rightarrow> string \<Rightarrow> string" where
  "replace old new s =
     (if old = [] then new @ concat (map (\<lambda>c. c # new) s)
      else if s = [] then []
      else if prefix old s then new @ replace old new (drop (length old) s)
      else hd s # replace old new (tl s))"
  by pat_completeness auto
termination
  by (relation "measure (\<lambda>(old, new, s). length s)") auto

definition out_path_results :: "string \<Rightarrow> string" where
  "out_path_results excel_path = replace ''.xlsx'' ''_with_results.xlsx'' excel_path"

definition out_path_answers :: "string \<Rightarrow> string" where
  "out_path_answers excel_path = replace ''.xlsx'' ''_with_answers.xlsx'' excel_path"

text \<open>
  The files of the run, by path, and the writer of the spreadsheet library, which is
  outside the repository and a parameter here.  \<^verbatim>\<open>pd.ExcelWriter(out_path, mode="w")\<close>
  either raises (the library refuses the extension, or the directory is missing) or
  opens; \<open>wr_opens\<close> gives the exception, if any.  The writer starts from a workbook of its
  own, whose sheet names are \<open>wr_sheetnames\<close>.  \<^verbatim>\<open>args.sheet\<close> is the integer 0 when the
  option is not given and a string when it is; the sheet to write is
  \<^verbatim>\<open>args.sheet if isinstance(args.sheet, str) else writer.book.sheetnames[0]\<close>, which raises
  \<^verbatim>\<open>IndexError\<close> on a workbook with no sheet.  A save that goes through makes the frame the
  whole content of the file at \<open>out_path\<close>; what a save that raises leaves at that path is
  not part of the model.
\<close>

type_synonym files = "string \<Rightarrow> table option"

datatype sheet_arg = SheetDefault | SheetName string

record writer =
  wr_opens :: "string \<Rightarrow> crash option"
  wr_sheetnames :: "string list"

definition save :: "writer \<Rightarrow> files \<Rightarrow> string \<Rightarrow> sheet_arg \<Rightarrow> table \<Rightarrow> crash + files" where
  "save wr fs out_path sheet df =
     (case wr_opens wr out_path of
        Some c \<Rightarrow> Inl c
      | None \<Rightarrow>
          (case sheet of
             SheetName name \<Rightarrow> Inr (fs(out_path \<mapsto> df))
           | SheetDefault \<Rightarrow>
               (case wr_sheetnames wr of
                  [] \<Rightarrow> Inl (IndexError 0)
                | name # names \<Rightarrow> Inr (fs(out_path \<mapsto> df)))))"

text \<open>
  The scripts from loading to saving.  A path with no workbook ends the run when it is
  read.  The batch script saves when its body ends without an exception; the Gemini script
  saves in a \<^verbatim>\<open>finally\<close> block, whatever the row loop did.
\<close>

definition batch_script ::
  "writer \<Rightarrow> remote \<Rightarrow> int \<Rightarrow> string \<Rightarrow> sheet_arg \<Rightarrow> files \<Rightarrow> crash + files" where
  "batch_script wr remote batch_size excel_path sheet fs =
     (case fs excel_path of
        None \<Rightarrow> Inl OSError
      | Some df \<Rightarrow>
          (case fst (batch_run remote batch_size df) of
             Inl c \<Rightarrow> Inl c
           | Inr df' \<Rightarrow> save wr fs (out_path_results excel_path) sheet df'))"

definition gemini_script ::
  "writer \<Rightarrow> gemini_remote \<Rightarrow> (nat \<Rightarrow> real) \<Rightarrow> string \<Rightarrow> sheet_arg \<Rightarrow> files
     \<Rightarrow> crash + files" where
  "gemini_script wr remote jitter excel_path sheet fs =
     (case fs excel_path of
        None \<Rightarrow> Inl OSError
      | Some df \<Rightarrow>
          save wr fs (out_path_answers excel_path) sheet (fst (gemini_run remote jitter df)))"

text \<open>The content of the file at a path after a run, when the run ended without an exception.\<close>

definition file_after :: "crash + files \<Rightarrow> string \<Rightarrow> crash + table option" where
  "file_after r path = (case r of Inl c \<Rightarrow> Inl c | Inr fs \<Rightarrow> Inr (fs path))"

section \<open>Reference functions for the properties\<close>

text \<open>
  The distinct elements of a list in the order of their first occurrence: what the
  specification calls first-seen order.
\<close>

fun first_seen :: "'a list \<Rightarrow> 'a list" where
  "first_seen [] = []"
| "first_seen (x # xs) = x # first_seen (filter (\<lambda>y. y \<noteq> x) xs)"

text \<open>
  The pair a line of a batch reply stands for, if it matches \<^verbatim>\<open>LINE_RE\<close>: the identifier as
  a number and the token lowered; and the pairs of the matching lines of a text, in the
  order of the lines.
\<close>

definition line_pair :: "string \<Rightarrow> (nat \<times> string) option" where
  "line_pair line =
     (case LINE_RE_match line of
        None \<Rightarrow> None
      | Some (g1, g2) \<Rightarrow> Some (digits_value g1, lower g2))"

text \<open>A line that matches with an identifier too long for \<^verbatim>\<open>int\<close>.\<close>

definition long_id :: "string \<Rightarrow> bool" where
  "long_id line =
     (case LINE_RE_match line of
        None \<Rightarrow> False
      | Some (g1, g2) \<Rightarrow> max_str_digits < length g1)"

text \<open>The dictionary that holds the pairs \<open>ps\<close>, stored in their order on top of \<open>acc\<close>.\<close>

fun store_pairs :: "(nat \<times> string) list \<Rightarrow> (nat \<times> string) list \<Rightarrow> (nat \<times> string) list" where
  "store_pairs [] acc = acc"
| "store_pairs ((k, v) # ps) acc = store_pairs ps (AList.update k v acc)"

definition matched_pairs :: "string \<Rightarrow> (nat \<times> string) list" where
  "matched_pairs text = List.map_filter line_pair (splitlines text)"

text \<open>
  What the fallback of \<^verbatim>\<open>classify_batch\<close> stores for one reply, and the calls and values of
  a run of single-row calls for the tasks \<open>ts\<close>, started after the prompts \<open>hist\<close>.
\<close>

definition fallback_value :: "reply \<Rightarrow> string" where
  "fallback_value r =
     (case r of Returns resp \<Rightarrow> clean_label (response_text resp) | Raises e \<Rightarrow> ''ERROR: '' @ e)"

definition fallback_call :: "task \<Rightarrow> call" where
  "fallback_call t = (case t of (ridx, text, labels) \<Rightarrow> ([ridx], single_prompt text labels))"

fun fallback_values :: "remote \<Rightarrow> string list \<Rightarrow> task list \<Rightarrow> (nat \<times> string) list" where
  "fallback_values remote hist [] = []"
| "fallback_values remote hist (t # ts) =
     (fst t, fallback_value (remote hist (snd (fallback_call t))))
       # fallback_values remote (hist @ [snd (fallback_call t)]) ts"

text \<open>
  The waits of \<open>n\<close> attempts in a row that all end in a backoff sleep, from attempt number
  \<open>attempt\<close> on, when \<open>k0\<close> sleeps came before.
\<close>

definition backoff_waits :: "(nat \<Rightarrow> real) \<Rightarrow> nat \<Rightarrow> nat \<Rightarrow> nat \<Rightarrow> real list" where
  "backoff_waits jitter k0 attempt n =
     map (\<lambda>i. min (2 ^ (attempt + i) + jitter (k0 + i)) 30) [0..<n]"

text \<open>
  A reply is faithful to its batch when every identifier parsed from it is a row of the
  batch.  Against an endpoint whose replies to batch prompts are all faithful, the batch
  script leaves the output cell of every skipped row as it was: the writes over skipped
  rows come from the identifiers of other rows in a reply, and from nothing else.
\<close>

definition faithful :: "remote \<Rightarrow> bool" where
  "faithful remote =
     (\<forall>hist batch resp parsed.
        remote hist (build_batch_prompt batch) = Returns resp
        \<and> parse_batch_output (response_text resp) = Inr parsed \<longrightarrow>
        fst ` set parsed \<subseteq> fst ` set batch)"

section \<open>Concrete inputs\<close>

text \<open>
  Replies and endpoints used where a property is run on an input.  A reply text is
  carried in \<^verbatim>\<open>output_text\<close>.
\<close>

definition text_reply :: "string \<Rightarrow> reply" where
  "text_reply t = Returns \<lparr>output_text = Some t, output_items = []\<rparr>"

text \<open>
  An endpoint whose reply to the first call of a run has no result line and whose later
  replies are \<^verbatim>\<open>" maybe "\<close>.
\<close>

definition remote_undecided :: remote where
  "remote_undecided hist prompt =
     (if hist = [] then text_reply ''I cannot decide'' else text_reply '' maybe '')"

text \<open>A reply with two lines for row 1, a line in lower case and two lines that do not match.\<close>

definition dup_reply :: string where
  "dup_reply =
     ''ID=1 ans0'' @ [CHR 0x0A] @ ''Sure, here are the labels:'' @ [CHR 0x0A] @
     ''id=2   ANS11  '' @ [CHR 0x0A] @ ''ID=3 ans1.'' @ [CHR 0x0A] @ ''ID=1 Ans3''"

text \<open>
  Gemini endpoints that fail every call with one message, a jitter of one half, and the
  world at the start of a run.
\<close>

definition remote_generate_blocked :: gemini_remote where
  "remote_generate_blocked hist prompt =
     Fails ''Failed to generate content: blocked by safety filters''"

definition remote_quota :: gemini_remote where
  "remote_quota hist prompt = Fails ''429 Resource exhausted: quota exceeded''"

definition remote_blocked :: gemini_remote where
  "remote_blocked hist prompt = Fails ''Prompt was BLOCKED for SAFETY reasons''"

definition remote_unauthorized :: gemini_remote where
  "remote_unauthorized hist prompt = Fails ''401 API key not valid''"

definition jitter_half :: "nat \<Rightarrow> real" where
  "jitter_half k = 1 / 2"

definition world0 :: world where
  "world0 = \<lparr>w_calls = [], w_sleeps = []\<rparr>"

text \<open>
  An endpoint that answers a batch for row 0 only, then answers one single-row call and
  fails the next; and a batch of three tasks.
\<close>

definition remote_partial :: remote where
  "remote_partial hist prompt =
     (if hist = [] then text_reply (''ID=0 ans1'' @ [CHR 0x0A] @ ''I am not sure about the rest'')
      else if length hist = 1 then text_reply ''It is ANS0.''
      else Raises ''Connection reset'')"

text \<open>
  An endpoint that answers a batch for row 0 only and whose single-row replies have no
  token: the first is empty, the later ones are free text.
\<close>

definition remote_silent :: remote where
  "remote_silent hist prompt =
     (if hist = [] then text_reply ''ID=0 ans1''
      else if length hist = 1 then text_reply []
      else text_reply ''Neither of them'')"

definition batch3 :: "task list" where
  "batch3 =
     [(0, ''ans0 or ans1: first'', [''ans0'', ''ans1'']),
      (1, ''ans0 or ans1: second'', [''ans0'', ''ans1'']),
      (2, ''ans0 or ans1: third'', [''ans0'', ''ans1''])]"

text \<open>
  Endpoints whose reply to a batch names rows that are not in the batch, tables that hold
  a row the run has to skip, and a folder with one workbook that is not named \<^verbatim>\<open>.xlsx\<close>.
\<close>

definition remote_two_lines :: remote where
  "remote_two_lines hist prompt = text_reply (''ID=0 ans0'' @ [CHR 0x0A] @ ''ID=1 ans0'')"

definition remote_three_lines :: remote where
  "remote_three_lines hist prompt =
     text_reply (''ID=0 ans1'' @ [CHR 0x0A] @ ''ID=1 ans1'' @ [CHR 0x0A] @ ''ID=2 ans0'')"

definition rerun_table :: table where
  "rerun_table =
     [(Str ''First: ans0 or ans1?'', Str ''ans1''),
      (Str ''Second: ans0 or ans1?'', NaN)]"

definition resume_table :: table where
  "resume_table =
     [(Str ''Is it ans0 or ans1?'', Str ''''),
      (Str ''ans0 or ans1, which one?'', Str ''prior-answer'')]"

definition blank_table :: table where
  "blank_table =
     [(NaN, NaN),
      (Str ''   '', Str ''''),
      (Str ''Is it ans0 or ans1?'', NaN)]"

definition xlsm_files :: files where
  "xlsm_files = Map.empty(''data.xlsm'' \<mapsto> rerun_table)"

text \<open>
  A writer that opens for the extensions \<^verbatim>\<open>.xlsx\<close> and \<^verbatim>\<open>.xlsm\<close>, refuses every other path
  with \<^verbatim>\<open>ValueError\<close>, and starts from a workbook with no sheet.
\<close>

definition plain_writer :: writer where
  "plain_writer =
     \<lparr>wr_opens = (\<lambda>path. if suffix ''.xlsx'' path \<or> suffix ''.xlsm'' path then None
                        else Some ValueError),
      wr_sheetnames = []\<rparr>"

text \<open>An endpoint that sends the example line of the batch prompt back as a result line.\<close>

definition remote_example_line :: remote where
  "remote_example_line hist prompt = text_reply (''ID=1 ans0'' @ [CHR 0x0A] @ ''ID=12 ans1'')"

section \<open>Label extraction\<close>

lemma set_first_seen: "set (first_seen xs) = set xs"
  by (induction xs rule: first_seen.induct) auto

lemma distinct_first_seen: "distinct (first_seen xs)"
  by (induction xs rule: first_seen.induct) (auto simp: set_first_seen)

lemma first_seen_two:
  assumes "xs \<noteq> []" and "hd xs = a" and "set xs = {a, b}" and "a \<noteq> b"
  shows "first_seen xs = [a, b]"
proof -
  obtain ys where xs: "xs = a # ys"
    using assms(1,2) by (cases xs) auto
  let ?zs = "filter (\<lambda>y. y \<noteq> a) ys"
  have set_zs: "set ?zs = {b}"
    using assms(3,4) xs by auto
  then obtain z zs' where zs: "?zs = z # zs'"
    by (cases ?zs) auto
  have "z = b" using set_zs zs by auto
  moreover have "filter (\<lambda>y. y \<noteq> b) zs' = []"
    using set_zs zs by (auto simp: filter_empty_conv)
  ultimately have "first_seen ?zs = [b]"
    using zs by simp
  then show ?thesis using xs by simp
qed

text \<open>
  The loop invariant: \<open>seen\<close> is the set of \<open>ordered\<close>, and the loop appends the first-seen
  list of the lowered matches that are not yet in it.
\<close>

lemma extract_loop_first_seen:
  "extract_loop labs (set ordered) ordered =
     ordered @ first_seen (filter (\<lambda>l. l \<notin> set ordered) (map lower labs))"
proof (induction labs arbitrary: ordered)
  case Nil
  show ?case by simp
next
  case (Cons lab labs)
  show ?case
  proof (cases "lower lab \<in> set ordered")
    case True
    then show ?thesis using Cons [of ordered] by simp
  next
    case False
    have step: "extract_loop (lab # labs) (set ordered) ordered =
        extract_loop labs (set (ordered @ [lower lab])) (ordered @ [lower lab])"
      using False by (simp add: Let_def)
    have fuse: "filter (\<lambda>l. l \<notin> set (ordered @ [lower lab])) (map lower labs) =
        filter (\<lambda>y. y \<noteq> lower lab) (filter (\<lambda>l. l \<notin> set ordered) (map lower labs))"
      by (auto intro: filter_cong)
    have rhs: "first_seen (filter (\<lambda>l. l \<notin> set ordered) (map lower (lab # labs))) =
        lower lab # first_seen
          (filter (\<lambda>y. y \<noteq> lower lab) (filter (\<lambda>l. l \<notin> set ordered) (map lower labs)))"
      using False by (simp del: filter_filter)
    have "extract_loop labs (set (ordered @ [lower lab])) (ordered @ [lower lab]) =
        (ordered @ [lower lab]) @
        first_seen (filter (\<lambda>l. l \<notin> set (ordered @ [lower lab])) (map lower labs))"
      by (rule Cons)
    then show ?thesis
      by (simp only: step rhs fuse append_assoc append_Cons append_Nil)
  qed
qed

lemma extract_loop_start:
  "extract_loop labs {} [] = first_seen (map lower labs)"
  using extract_loop_first_seen [of labs "[]"] by simp

text \<open>
  Claim C7.  For every input string the label extractor returns the matched
  \<^verbatim>\<open>ans\<close>-number tokens lowered, each once, in the order of first occurrence (so two tokens
  that differ in case only count as one), and the fixed default \<^verbatim>\<open>["ans0", "ans1", "ans2"]\<close>
  when nothing matches; the extractor of the single-row classifier is the same function.
  In particular, when the lowered matches are \<^verbatim>\<open>ans2\<close> and \<^verbatim>\<open>ans0\<close> with \<^verbatim>\<open>ans2\<close> first, however
  often repeated, the result is \<^verbatim>\<open>["ans2", "ans0"]\<close>.
\<close>

theorem extract_labels_first_seen:
  "extract_labels text =
     (if LABEL_RE_findall text = [] then [''ans0'', ''ans1'', ''ans2'']
      else first_seen (map lower (LABEL_RE_findall text)))
   \<and> extract_labels_from_text text = extract_labels text
   \<and> distinct (extract_labels text)
   \<and> (LABEL_RE_findall text \<noteq> []
        \<and> hd (map lower (LABEL_RE_findall text)) = ''ans2''
        \<and> set (map lower (LABEL_RE_findall text)) = {''ans2'', ''ans0''}
      \<longrightarrow> extract_labels text = [''ans2'', ''ans0''])"
proof -
  let ?ls = "map lower (LABEL_RE_findall text)"
  have nonempty: "first_seen ?ls = [] \<longleftrightarrow> LABEL_RE_findall text = []"
    using set_first_seen [of ?ls] by (cases "LABEL_RE_findall text") auto
  have eq: "extract_labels text =
      (if LABEL_RE_findall text = [] then [''ans0'', ''ans1'', ''ans2''] else first_seen ?ls)"
    by (simp add: extract_labels_def extract_loop_start default_labels_def nonempty)
  have same: "extract_labels_from_text text = extract_labels text"
    unfolding extract_labels_def extract_labels_from_text_def default_labels_def
    by (rule refl)
  have dist: "distinct (extract_labels text)"
    by (simp add: eq distinct_first_seen)
  have two: "extract_labels text = [''ans2'', ''ans0'']"
    if "LABEL_RE_findall text \<noteq> []" "hd ?ls = ''ans2''" "set ?ls = {''ans2'', ''ans0''}"
  proof -
    have "first_seen ?ls = [''ans2'', ''ans0'']"
      using that by (intro first_seen_two) auto
    then show ?thesis using that(1) by (simp add: eq)
  qed
  show ?thesis using eq same dist two by blast
qed

theorem extract_labels_first_seen_witness:
  "extract_labels ''Is it Ans2 or ans0? ANS2, ans0 and ans2'' = [''ans2'', ''ans0'']
   \<and> LABEL_RE_findall ''Is it Ans2 or ans0? ANS2, ans0 and ans2''
       = [''Ans2'', ''ans0'', ''ANS2'', ''ans0'', ''ans2'']
   \<and> extract_labels ''no label here'' = [''ans0'', ''ans1'', ''ans2'']
   \<and> LABEL_RE_findall ''no label here'' = []"
proof -
  have found: "LABEL_RE_findall ''Is it Ans2 or ans0? ANS2, ans0 and ans2''
      = [''Ans2'', ''ans0'', ''ANS2'', ''ans0'', ''ans2'']"
    by code_simp
  have none: "LABEL_RE_findall ''no label here'' = []"
    by code_simp
  have low: "map lower [''Ans2'', ''ans0'', ''ANS2'', ''ans0'', ''ans2'']
      = [''ans2'', ''ans0'', ''ans2'', ''ans0'', ''ans2'']"
    by code_simp
  have "extract_labels ''Is it Ans2 or ans0? ANS2, ans0 and ans2'' = [''ans2'', ''ans0'']"
    using extract_labels_first_seen [of "''Is it Ans2 or ans0? ANS2, ans0 and ans2''"]
    unfolding found low by auto
  moreover have "extract_labels ''no label here'' = [''ans0'', ''ans1'', ''ans2'']"
    using extract_labels_first_seen [of "''no label here''"] unfolding none by simp
  ultimately show ?thesis using found none by simp
qed

section \<open>The cleanup of a single-row reply\<close>

lemma label_search_scan:
  "label_search_from pw s = (case label_scan pw s of [] \<Rightarrow> None | m # ms \<Rightarrow> Some m)"
  by (induction pw s rule: label_scan.induct) (auto split: option.splits)

lemma clean_label_findall:
  "clean_label out2 = (case LABEL_RE_findall out2 of [] \<Rightarrow> strip out2 | m # ms \<Rightarrow> lower m)"
  by (simp add: clean_label_def LABEL_RE_search_def LABEL_RE_findall_def label_search_scan
      split: list.splits)

lemma fallback_step:
  "map_of parsed ridx = None \<Longrightarrow>
   fallback remote ((ridx, text, labels) # rest) parsed calls =
     fallback remote rest
       (AList.update ridx (fallback_value (remote (map snd calls) (single_prompt text labels))) parsed)
       (calls @ [([ridx], single_prompt text labels)])"
  by (simp add: call_openai_def fallback_value_def split: reply.splits)

text \<open>
  Claim C10.  The cleanup of a single-row reply stores the first \<^verbatim>\<open>ans\<close>-number token of
  the reply, lowered, when the reply has one, and the stripped reply itself when it has
  none.  That is what the fallback of \<^verbatim>\<open>classify_batch\<close> binds a missing row to when its
  call returns, and what the single-row classifier writes into column B.  For some
  replies the value is not one of the row's permitted labels.
\<close>

theorem clean_label_token_or_raw:
  "clean_label out2 =
     (case LABEL_RE_findall out2 of [] \<Rightarrow> strip out2 | m # ms \<Rightarrow> lower m)
   \<and> (map_of parsed ridx = None
        \<and> remote (map snd calls) (single_prompt text labels) = Returns resp
      \<longrightarrow> fst (fallback remote [(ridx, text, labels)] parsed calls)
            = AList.update ridx (clean_label (response_text resp)) parsed)
   \<and> (\<not> blank val
        \<and> labeller (build_prompt (strip (cell_str val))
              (extract_labels_from_text (strip (cell_str val)))) = Inr label
      \<longrightarrow> classify_rows labeller [(idx, val)] df = set_colB df idx (clean_label label))
   \<and> (\<exists>row_text reply_text. clean_label reply_text \<notin> set (extract_labels row_text))"
proof -
  have stored: "fst (fallback remote [(ridx, text, labels)] parsed calls)
      = AList.update ridx (clean_label (response_text resp)) parsed"
    if "map_of parsed ridx = None"
      and "remote (map snd calls) (single_prompt text labels) = Returns resp"
    using that by (simp add: call_openai_def)
  have written: "classify_rows labeller [(idx, val)] df = set_colB df idx (clean_label label)"
    if "\<not> blank val"
      and "labeller (build_prompt (strip (cell_str val))
              (extract_labels_from_text (strip (cell_str val)))) = Inr label"
    using that by simp
  have "clean_label ''maybe'' = ''maybe''"
    by code_simp
  moreover have "extract_labels ''Is it ans0 or ans1?'' = [''ans0'', ''ans1'']"
    by code_simp
  ultimately have "clean_label ''maybe'' \<notin> set (extract_labels ''Is it ans0 or ans1?'')"
    by simp
  then have outside: "\<exists>row_text reply_text. clean_label reply_text \<notin> set (extract_labels row_text)"
    by blast
  show ?thesis
    using clean_label_findall stored written outside by blast
qed

theorem clean_label_token_or_raw_witness:
  "fst (fallback remote_undecided [(0, ''Is it ans0 or ans1?'', [''ans0'', ''ans1''])] []
          [([0], build_batch_prompt [(0, ''Is it ans0 or ans1?'', [''ans0'', ''ans1''])])])
     = [(0, ''maybe'')]
   \<and> ''maybe'' \<notin> set (extract_labels ''Is it ans0 or ans1?'')
   \<and> fst (batch_run remote_undecided 10 [(Str ''Is it ans0 or ans1?'', NaN)])
     = Inr [(Str ''Is it ans0 or ans1?'', Str ''maybe'')]
   \<and> clean_label ''I pick ANS1, not ans0'' = ''ans1''"
proof -
  let ?labels = "[''ans0'', ''ans1'']"
  let ?calls = "[([0::nat], build_batch_prompt [(0, ''Is it ans0 or ans1?'', ?labels)])]"
  let ?resp = "\<lparr>output_text = Some '' maybe '', output_items = []\<rparr>"
  have none: "map_of ([] :: (nat \<times> string) list) 0 = None"
    by simp
  have reply: "remote_undecided (map snd ?calls) (single_prompt ''Is it ans0 or ans1?'' ?labels)
      = Returns ?resp"
    by (simp add: remote_undecided_def text_reply_def)
  have "fst (fallback remote_undecided [(0, ''Is it ans0 or ans1?'', ?labels)] [] ?calls)
      = AList.update 0 (clean_label (response_text ?resp)) []"
    using clean_label_token_or_raw
      [of _ "[]" 0 remote_undecided ?calls "''Is it ans0 or ans1?''" ?labels ?resp]
      none reply
    by blast
  moreover have "AList.update (0::nat) (clean_label (response_text ?resp)) [] = [(0, ''maybe'')]"
    by code_simp
  moreover have "''maybe'' \<notin> set (extract_labels ''Is it ans0 or ans1?'')"
    by code_simp
  moreover have "fst (batch_run remote_undecided 10 [(Str ''Is it ans0 or ans1?'', NaN)])
      = Inr [(Str ''Is it ans0 or ans1?'', Str ''maybe'')]"
    by code_simp
  moreover have "clean_label ''I pick ANS1, not ans0'' = ''ans1''"
    by code_simp
  ultimately show ?thesis by simp
qed

section \<open>The parser of a batch reply: properties\<close>

lemma store_pairs_map_of:
  "map_of (store_pairs ps acc) = map_of (rev ps @ acc)"
proof (induction ps arbitrary: acc)
  case Nil
  show ?case by simp
next
  case (Cons p ps)
  obtain k v where p: "p = (k, v)"
    by (cases p)
  have "map_of (store_pairs (p # ps) acc) = map_of (rev ps @ AList.update k v acc)"
    by (simp add: p Cons)
  also have "\<dots> = map_of (rev ps @ (k, v) # acc)"
    by (simp add: update_conv')
  finally show ?case by (simp add: p)
qed

lemma store_pairs_distinct:
  "distinct (map fst acc) \<Longrightarrow> distinct (map fst (store_pairs ps acc))"
  by (induction ps arbitrary: acc) (auto simp: distinct_update)

text \<open>
  When no line has an identifier too long to convert, the loop stores the pairs of the
  matching lines in their order; when some line has one, the function raises.
\<close>

lemma parse_lines_store:
  "(\<And>l. l \<in> set lines \<Longrightarrow> \<not> long_id l) \<Longrightarrow>
   parse_lines lines acc = Inr (store_pairs (List.map_filter line_pair lines) acc)"
proof (induction lines arbitrary: acc)
  case Nil
  show ?case by simp
next
  case (Cons l ls)
  have rest: "parse_lines ls acc' = Inr (store_pairs (List.map_filter line_pair ls) acc')" for acc'
    using Cons.prems by (intro Cons.IH) simp
  show ?case
  proof (cases "LINE_RE_match l")
    case None
    then have "line_pair l = None" by (simp add: line_pair_def)
    then show ?thesis using None rest by simp
  next
    case (Some g)
    obtain g1 g2 where g: "g = (g1, g2)" by (cases g)
    have "\<not> long_id l"
      using Cons.prems by simp
    then have conv: "int_of_digits g1 = Inr (digits_value g1)"
      using Some g by (simp add: long_id_def int_of_digits_def)
    have lp: "line_pair l = Some (digits_value g1, lower g2)"
      using Some g by (simp add: line_pair_def)
    show ?thesis
      using Some g conv rest by (simp add: lp)
  qed
qed

lemma parse_lines_long_id:
  "\<exists>l \<in> set lines. long_id l \<Longrightarrow> parse_lines lines acc = Inl ValueError"
proof (induction lines arbitrary: acc)
  case Nil
  then show ?case by simp
next
  case (Cons l ls)
  show ?case
  proof (cases "long_id l")
    case True
    then obtain g1 g2 where "LINE_RE_match l = Some (g1, g2)" "max_str_digits < length g1"
      by (auto simp: long_id_def split: option.splits)
    then show ?thesis
      by (simp add: int_of_digits_def)
  next
    case False
    then have "\<exists>l \<in> set ls. long_id l"
      using Cons.prems by auto
    then have "parse_lines ls acc' = Inl ValueError" for acc'
      by (rule Cons.IH)
    then show ?thesis
      by (auto simp: int_of_digits_def split: option.splits sum.splits if_splits)
  qed
qed

lemma parse_batch_output_long_id:
  "\<exists>l \<in> set (splitlines text). long_id l \<Longrightarrow> parse_batch_output text = Inl ValueError"
  unfolding parse_batch_output_def by (rule parse_lines_long_id)

text \<open>
  A result line with an identifier of more than 4300 digits matches the pattern, so a
  reply that has such a line makes the parser raise.
\<close>

lemma long_identifier_line:
  assumes "4300 < n"
  shows "long_id (''ID='' @ replicate n (CHR ''1'') @ '' ans1'')"
proof -
  let ?ones = "replicate n (CHR ''1'')"
  have t: "takeWhile is_digit (?ones @ '' ans1'') = ?ones"
    by (induction n) (simp_all add: is_digit_def)
  have d: "dropWhile is_digit (?ones @ '' ans1'') = '' ans1''"
    by (induction n) (simp_all add: is_digit_def)
  have ne: "?ones \<noteq> []"
    using assms by auto
  have "LINE_RE_match (''ID='' @ ?ones @ '' ans1'') = Some (?ones, ''ans1'')"
    using ne by (simp add: LINE_RE_match_def t d is_space_def is_digit_def lower_char_def)
  then show ?thesis
    using assms by (simp add: long_id_def max_str_digits_def)
qed

lemma parse_lines_long_identifier:
  "4300 < n \<Longrightarrow>
   parse_lines (lines @ [''ID='' @ replicate n (CHR ''1'') @ '' ans1'']) acc = Inl ValueError"
  using long_identifier_line [of n] by (intro parse_lines_long_id) auto

lemma parse_lines_filter:
  "parse_lines lines acc = parse_lines (filter (\<lambda>l. LINE_RE_match l \<noteq> None) lines) acc"
  by (induction lines arbitrary: acc) (auto split: option.splits sum.splits)

text \<open>
  Claim C6, as amended.  For every reply text in which no matching line has an identifier
  of more than 4300 digits, \<^verbatim>\<open>parse_batch_output\<close> returns a dictionary that binds each
  identifier matched by some line (grammar \<^verbatim>\<open>ID=<integer> <token>\<close>, the pattern \<^verbatim>\<open>LINE_RE\<close>
  taken without regard to case) to the lowered token of the last line that matches with
  that identifier; every pair it returns comes from a matching line; when no identifier is
  matched twice it returns exactly the pairs of the matching lines; and a line that does
  not match is dropped without any effect on the result.
\<close>

theorem parse_batch_output_last_match:
  assumes "\<forall>line \<in> set (splitlines text). \<not> long_id line"
  shows "\<exists>parsed. parse_batch_output text = Inr parsed
      \<and> map_of parsed = map_of (rev (matched_pairs text))
      \<and> distinct (map fst parsed)
      \<and> set parsed \<subseteq> set (matched_pairs text)
      \<and> fst ` set parsed = fst ` set (matched_pairs text)
      \<and> (distinct (map fst (matched_pairs text)) \<longrightarrow> set parsed = set (matched_pairs text))
      \<and> parse_lines (filter (\<lambda>l. LINE_RE_match l \<noteq> None) (splitlines text)) [] = Inr parsed"
proof -
  let ?mp = "matched_pairs text"
  let ?res = "store_pairs ?mp []"
  have run: "parse_batch_output text = Inr ?res"
    unfolding parse_batch_output_def matched_pairs_def
    using assms by (intro parse_lines_store) blast
  have m: "map_of ?res = map_of (rev ?mp)"
    by (simp add: store_pairs_map_of)
  have d: "distinct (map fst ?res)"
    by (simp add: store_pairs_distinct)
  have sub: "set ?res \<subseteq> set ?mp"
  proof
    fix p assume "p \<in> set ?res"
    then have "(fst p, snd p) \<in> set ?res" by simp
    with d have "map_of ?res (fst p) = Some (snd p)"
      by (rule map_of_is_SomeI)
    then have "map_of (rev ?mp) (fst p) = Some (snd p)"
      by (simp add: m)
    then have "(fst p, snd p) \<in> set (rev ?mp)"
      by (rule map_of_SomeD)
    then show "p \<in> set ?mp" by simp
  qed
  have "dom (map_of ?res) = dom (map_of (rev ?mp))"
    by (simp add: m)
  then have keys: "fst ` set ?res = fst ` set ?mp"
    by (simp add: dom_map_of_conv_image_fst)
  have sup: "set ?mp \<subseteq> set ?res" if dist: "distinct (map fst ?mp)"
  proof
    fix p assume "p \<in> set ?mp"
    then have "(fst p, snd p) \<in> set (rev ?mp)" by simp
    moreover have "distinct (map fst (rev ?mp))"
      using dist by (simp add: rev_map [symmetric])
    ultimately have "map_of (rev ?mp) (fst p) = Some (snd p)"
      by (intro map_of_is_SomeI)
    then have "map_of ?res (fst p) = Some (snd p)"
      by (simp add: m)
    then have "(fst p, snd p) \<in> set ?res"
      by (rule map_of_SomeD)
    then show "p \<in> set ?res" by simp
  qed
  have f: "parse_lines (filter (\<lambda>l. LINE_RE_match l \<noteq> None) (splitlines text)) [] = Inr ?res"
    using run unfolding parse_batch_output_def by (simp only: parse_lines_filter [symmetric])
  show ?thesis
    using run m d sub keys sup f by blast
qed

theorem parse_batch_output_last_match_witness:
  "filter long_id (splitlines dup_reply) = []
   \<and> parse_batch_output dup_reply = Inr [(1, ''ans3''), (2, ''ans11'')]
   \<and> matched_pairs dup_reply = [(1, ''ans0''), (2, ''ans11''), (1, ''ans3'')]
   \<and> (\<exists>parsed. parse_batch_output dup_reply = Inr parsed
        \<and> map_of parsed 1 = Some ''ans3'' \<and> map_of parsed 3 = None)"
proof -
  have none: "filter long_id (splitlines dup_reply) = []"
    by code_simp
  then have short: "\<forall>line \<in> set (splitlines dup_reply). \<not> long_id line"
    by (simp add: filter_empty_conv)
  have pairs: "matched_pairs dup_reply = [(1, ''ans0''), (2, ''ans11''), (1, ''ans3'')]"
    by code_simp
  obtain parsed where run: "parse_batch_output dup_reply = Inr parsed"
    and m: "map_of parsed = map_of (rev (matched_pairs dup_reply))"
    using parse_batch_output_last_match [OF short] by blast
  have "map_of parsed 1 = Some ''ans3''" and "map_of parsed 3 = None"
    by (simp_all add: m pairs)
  then have ex: "\<exists>parsed. parse_batch_output dup_reply = Inr parsed
        \<and> map_of parsed 1 = Some ''ans3'' \<and> map_of parsed 3 = None"
    using run by blast
  have res: "parse_batch_output dup_reply = Inr [(1, ''ans3''), (2, ''ans11'')]"
    by code_simp
  show ?thesis
    by (intro conjI none res pairs ex)
qed

text \<open>
  The claim as it is written fails on a reply with two matching lines for one identifier:
  the pair of the earlier line is not in the result.
\<close>

theorem parse_batch_output_exact_pairs_counterexample:
  "parse_batch_output dup_reply = Inr [(1, ''ans3''), (2, ''ans11'')]
   \<and> matched_pairs dup_reply = [(1, ''ans0''), (2, ''ans11''), (1, ''ans3'')]
   \<and> (1, ''ans0'') \<in> set (matched_pairs dup_reply)
   \<and> (1, ''ans0'') \<notin> set [(1 :: nat, ''ans3''), (2, ''ans11'')]"
proof -
  have pairs: "matched_pairs dup_reply = [(1, ''ans0''), (2, ''ans11''), (1, ''ans3'')]"
    by code_simp
  have res: "parse_batch_output dup_reply = Inr [(1, ''ans3''), (2, ''ans11'')]"
    by code_simp
  have inside: "(1, ''ans0'') \<in> set (matched_pairs dup_reply)"
    by (simp add: pairs)
  have outside: "(1, ''ans0'') \<notin> set [(1 :: nat, ''ans3''), (2, ''ans11'')]"
    by simp
  show ?thesis
    by (intro conjI res pairs inside outside)
qed

section \<open>Retry with backoff\<close>

lemma backoff_waits_Suc:
  "backoff_waits jitter k0 attempt (Suc n) =
     min (2 ^ attempt + jitter k0) 30 # backoff_waits jitter (Suc k0) (Suc attempt) n"
  by (simp add: backoff_waits_def map_upt_Suc del: upt_Suc)

lemma attempts_all_rate_limited:
  "(\<And>i. i < left \<Longrightarrow>
       \<exists>e. remote (map snd (w_calls w) @ replicate i prompt) prompt = Fails e
           \<and> rate_limited (lower e)) \<Longrightarrow>
   attempts remote jitter rows prompt attempt left w =
     (Inr too_many_retries,
      w\<lparr>w_calls := w_calls w @ replicate left (rows, prompt),
        w_sleeps := w_sleeps w @ backoff_waits jitter (length (w_sleeps w)) attempt left\<rparr>)"
proof (induction left arbitrary: attempt w)
  case 0
  show ?case by (simp add: backoff_waits_def)
next
  case (Suc left)
  from Suc.prems [of 0] obtain e
    where e: "remote (map snd (w_calls w)) prompt = Fails e" "rate_limited (lower e)"
    by auto
  let ?wait = "min (2 ^ attempt + jitter (length (w_sleeps w))) 30"
  let ?w2 = "w\<lparr>w_calls := w_calls w @ [(rows, prompt)], w_sleeps := w_sleeps w @ [?wait]\<rparr>"
  have step: "attempts remote jitter rows prompt attempt (Suc left) w =
      attempts remote jitter rows prompt (Suc attempt) left ?w2"
    using e by (simp add: Let_def)
  have later: "\<exists>e. remote (map snd (w_calls ?w2) @ replicate i prompt) prompt = Fails e
      \<and> rate_limited (lower e)" if "i < left" for i
    using Suc.prems [of "Suc i"] that by (simp add: replicate_app_Cons_same)
  have "attempts remote jitter rows prompt (Suc attempt) left ?w2 =
      (Inr too_many_retries,
       ?w2\<lparr>w_calls := w_calls ?w2 @ replicate left (rows, prompt),
          w_sleeps := w_sleeps ?w2
            @ backoff_waits jitter (length (w_sleeps ?w2)) (Suc attempt) left\<rparr>)"
    using later by (rule Suc.IH)
  then show ?case
    unfolding step by (simp add: backoff_waits_Suc replicate_app_Cons_same)
qed

lemma backoff_step_le:
  assumes "\<forall>k. 0 \<le> jitter k \<and> jitter k \<le> 1" and "i < j"
  shows "(2::real) ^ (a + i) + jitter k \<le> 2 ^ (a + j) + jitter k'"
proof -
  have "(2::real) ^ (a + i) + jitter k \<le> 2 ^ (a + i) + 1"
    using assms(1) by simp
  also have "\<dots> \<le> 2 ^ (a + i) + 2 ^ (a + i)"
    by simp
  also have "\<dots> = 2 ^ (Suc (a + i))"
    by simp
  also have "\<dots> \<le> 2 ^ (a + j)"
    using assms(2) by (intro power_increasing) auto
  also have "\<dots> \<le> 2 ^ (a + j) + jitter k'"
    using assms(1) by simp
  finally show ?thesis .
qed

lemma backoff_waits_sorted:
  assumes "\<forall>k. 0 \<le> jitter k \<and> jitter k \<le> 1"
  shows "sorted (backoff_waits jitter k0 a n)"
proof -
  have "backoff_waits jitter k0 a n ! i \<le> backoff_waits jitter k0 a n ! j"
    if "i \<le> j" "j < n" for i j
  proof (cases "i = j")
    case True
    then show ?thesis by simp
  next
    case False
    then have "i < j" using that by simp
    then have "(2::real) ^ (a + i) + jitter (k0 + i) \<le> 2 ^ (a + j) + jitter (k0 + j)"
      using assms by (intro backoff_step_le)
    then show ?thesis
      using that by (simp add: backoff_waits_def min_le_iff_disj)
  qed
  then show ?thesis
    by (simp add: sorted_iff_nth_mono backoff_waits_def)
qed

lemma backoff_waits_bounds:
  assumes "\<forall>k. 0 \<le> jitter k \<and> jitter k \<le> 1" and "x \<in> set (backoff_waits jitter k0 a n)"
  shows "1 \<le> x \<and> x \<le> 30"
proof -
  obtain i where x: "x = min (2 ^ (a + i) + jitter (k0 + i)) 30"
    using assms(2) by (auto simp: backoff_waits_def)
  have "(1::real) \<le> 2 ^ (a + i)" by simp
  moreover have "0 \<le> jitter (k0 + i)" using assms(1) by simp
  ultimately have "1 \<le> 2 ^ (a + i) + jitter (k0 + i)" by linarith
  then show ?thesis by (simp add: x)
qed

text \<open>
  Claim C4.  When every attempt of a call of \<^verbatim>\<open>call_gemini_safe\<close> fails with a message that
  has a rate-limit marker, the function makes exactly \<open>retries\<close> calls (six in the row
  loop), sleeps after each of them \<open>min(30, 2^attempt + jitter)\<close> seconds for a jitter
  between 0 and 1, the waits never decrease and never exceed 30, and it returns the
  sentinel \<^verbatim>\<open>"ERROR: too many retries due to rate limits"\<close>; it does not raise.
\<close>

theorem call_gemini_safe_backoff:
  assumes "\<forall>k. 0 \<le> jitter k \<and> jitter k \<le> 1"
    and "\<forall>i<retries. \<exists>e. remote (map snd (w_calls w) @ replicate i prompt) prompt = Fails e
            \<and> rate_limited (lower e)"
  shows "call_gemini_safe remote jitter rows prompt retries w =
           (Inr too_many_retries,
            w\<lparr>w_calls := w_calls w @ replicate retries (rows, prompt),
              w_sleeps := w_sleeps w
                @ map (\<lambda>a. min (2 ^ a + jitter (length (w_sleeps w) + a)) 30) [0..<retries]\<rparr>)
         \<and> sorted (map (\<lambda>a. min (2 ^ a + jitter (length (w_sleeps w) + a)) 30) [0..<retries])
         \<and> (\<forall>x \<in> set (map (\<lambda>a. min (2 ^ a + jitter (length (w_sleeps w) + a)) 30)
                          [0..<retries]). 1 \<le> x \<and> x \<le> 30)"
proof -
  let ?waits = "map (\<lambda>a. min (2 ^ a + jitter (length (w_sleeps w) + a)) 30) [0..<retries]"
  have waits: "?waits = backoff_waits jitter (length (w_sleeps w)) 0 retries"
    by (simp add: backoff_waits_def)
  have run: "call_gemini_safe remote jitter rows prompt retries w =
      (Inr too_many_retries,
       w\<lparr>w_calls := w_calls w @ replicate retries (rows, prompt),
         w_sleeps := w_sleeps w @ ?waits\<rparr>)"
    unfolding call_gemini_safe_def waits
    using assms(2) by (intro attempts_all_rate_limited) blast
  have "sorted ?waits"
    unfolding waits using assms(1) by (rule backoff_waits_sorted)
  moreover have "\<forall>x \<in> set ?waits. 1 \<le> x \<and> x \<le> 30"
    unfolding waits using assms(1) backoff_waits_bounds by blast
  ultimately show ?thesis using run by blast
qed

theorem call_gemini_safe_backoff_witness:
  "call_gemini_safe remote_quota jitter_half [3] ''hello'' 6 world0 =
     (Inr ''ERROR: too many retries due to rate limits'',
      \<lparr>w_calls = replicate 6 ([3], ''hello''),
       w_sleeps = [3 / 2, 5 / 2, 9 / 2, 17 / 2, 33 / 2, 30]\<rparr>)
   \<and> sorted [3 / 2, 5 / 2, 9 / 2, 17 / 2, 33 / 2, 30 :: real]"
proof -
  have j: "\<forall>k. 0 \<le> jitter_half k \<and> jitter_half k \<le> 1"
    by (simp add: jitter_half_def)
  have low: "lower ''429 Resource exhausted: quota exceeded''
      = ''429 resource exhausted: quota exceeded''"
    by code_simp
  have "rate_limited ''429 resource exhausted: quota exceeded''"
    by code_simp
  then have t: "\<forall>i<6. \<exists>e. remote_quota (map snd (w_calls world0) @ replicate i ''hello'') ''hello''
        = Fails e \<and> rate_limited (lower e)"
    by (simp add: remote_quota_def low)
  have waits: "map (\<lambda>a. min (2 ^ a + jitter_half (length (w_sleeps world0) + a)) 30) [0..<6]
      = [3 / 2, 5 / 2, 9 / 2, 17 / 2, 33 / 2, 30]"
    by (simp add: jitter_half_def world0_def upt_rec [of _ "numeral _"])
  have calls: "world0\<lparr>w_calls := w_calls world0 @ replicate 6 ([3], ''hello''),
        w_sleeps := w_sleeps world0 @ [3 / 2, 5 / 2, 9 / 2, 17 / 2, 33 / 2, 30]\<rparr>
      = \<lparr>w_calls = replicate 6 ([3], ''hello''),
         w_sleeps = [3 / 2, 5 / 2, 9 / 2, 17 / 2, 33 / 2, 30]\<rparr>"
    by (simp add: world0_def)
  have "call_gemini_safe remote_quota jitter_half [3] ''hello'' 6 world0 =
      (Inr too_many_retries,
       world0\<lparr>w_calls := w_calls world0 @ replicate 6 ([3], ''hello''),
         w_sleeps := w_sleeps world0
           @ map (\<lambda>a. min (2 ^ a + jitter_half (length (w_sleeps world0) + a)) 30) [0..<6]\<rparr>)
    \<and> sorted (map (\<lambda>a. min (2 ^ a + jitter_half (length (w_sleeps world0) + a)) 30) [0..<6])"
    using call_gemini_safe_backoff
      [where jitter = jitter_half and retries = 6 and remote = remote_quota and w = world0
        and prompt = "''hello''" and rows = "[3]"] j t
    by blast
  then show ?thesis
    unfolding waits calls too_many_retries_def .
qed

text \<open>
  The routing of an exception whose lowered message has no rate-limit marker: at any
  attempt it ends the call at once, after that one call and with no sleep.  When the
  message has a safety marker (\<^verbatim>\<open>safety\<close> or \<^verbatim>\<open>blocked\<close>) the function returns the sentinel
  \<^verbatim>\<open>"(blocked)"\<close>, and otherwise the exception goes to the caller.
\<close>

lemma call_gemini_safe_error_routing:
  assumes "remote (map snd (w_calls w)) prompt = Fails e"
    and "\<not> rate_limited (lower e)"
  shows "attempts remote jitter rows prompt attempt (Suc left) w =
           (if safety_blocked (lower e) then Inr ''(blocked)'' else Inl (Exception e),
            w\<lparr>w_calls := w_calls w @ [(rows, prompt)]\<rparr>)
         \<and> call_gemini_safe remote jitter rows prompt (Suc left) w =
           (if safety_blocked (lower e) then Inr ''(blocked)'' else Inl (Exception e),
            w\<lparr>w_calls := w_calls w @ [(rows, prompt)]\<rparr>)
         \<and> w_sleeps (snd (call_gemini_safe remote jitter rows prompt (Suc left) w)) = w_sleeps w"
proof -
  have one: "attempts remote jitter rows prompt n (Suc left) w =
      (if safety_blocked (lower e) then Inr ''(blocked)'' else Inl (Exception e),
       w\<lparr>w_calls := w_calls w @ [(rows, prompt)]\<rparr>)" for n
    using assms by (simp add: Let_def)
  then have "call_gemini_safe remote jitter rows prompt (Suc left) w =
      (if safety_blocked (lower e) then Inr ''(blocked)'' else Inl (Exception e),
       w\<lparr>w_calls := w_calls w @ [(rows, prompt)]\<rparr>)"
    by (simp only: call_gemini_safe_def)
  moreover from this
  have "w_sleeps (snd (call_gemini_safe remote jitter rows prompt (Suc left) w)) = w_sleeps w"
    by simp
  ultimately show ?thesis using one by blast
qed

lemma call_gemini_safe_error_routing_example:
  "call_gemini_safe remote_blocked jitter_half [0] ''hello'' 6 world0
     = (Inr ''(blocked)'', \<lparr>w_calls = [([0], ''hello'')], w_sleeps = []\<rparr>)
   \<and> call_gemini_safe remote_unauthorized jitter_half [0] ''hello'' 6 world0
     = (Inl (Exception ''401 API key not valid''), \<lparr>w_calls = [([0], ''hello'')], w_sleeps = []\<rparr>)"
proof -
  have six: "(6::nat) = Suc 5" by simp
  have lb: "lower ''Prompt was BLOCKED for SAFETY reasons''
      = ''prompt was blocked for safety reasons''"
    by code_simp
  have nb: "\<not> rate_limited ''prompt was blocked for safety reasons''"
    by code_simp
  have sb: "safety_blocked ''prompt was blocked for safety reasons''"
    by code_simp
  have lu: "lower ''401 API key not valid'' = ''401 api key not valid''"
    by code_simp
  have nu: "\<not> rate_limited ''401 api key not valid''"
    by code_simp
  have su: "\<not> safety_blocked ''401 api key not valid''"
    by code_simp
  have w: "world0\<lparr>w_calls := w_calls world0 @ [([0], ''hello'')]\<rparr>
      = \<lparr>w_calls = [([0], ''hello'')], w_sleeps = []\<rparr>"
    by (simp add: world0_def)
  have "call_gemini_safe remote_blocked jitter_half [0] ''hello'' 6 world0
      = (Inr ''(blocked)'', \<lparr>w_calls = [([0], ''hello'')], w_sleeps = []\<rparr>)"
    using call_gemini_safe_error_routing
      [where remote = remote_blocked and w = world0 and prompt = "''hello''"
        and e = "''Prompt was BLOCKED for SAFETY reasons''" and jitter = jitter_half
        and rows = "[0]" and left = 5 and attempt = 0]
    unfolding six [symmetric] lb w
    by (simp add: remote_blocked_def nb sb)
  moreover have "call_gemini_safe remote_unauthorized jitter_half [0] ''hello'' 6 world0
      = (Inl (Exception ''401 API key not valid''),
         \<lparr>w_calls = [([0], ''hello'')], w_sleeps = []\<rparr>)"
    using call_gemini_safe_error_routing
      [where remote = remote_unauthorized and w = world0 and prompt = "''hello''"
        and e = "''401 API key not valid''" and jitter = jitter_half
        and rows = "[0]" and left = 5 and attempt = 0]
    unfolding six [symmetric] lu w
    by (simp add: remote_unauthorized_def nu su)
  ultimately show ?thesis by (rule conjI)
qed

text \<open>
  Claim C5 on \<^verbatim>\<open>call_gemini_safe\<close>.  The message of the exception says that the prompt was
  blocked by the safety filters, and it has no rate-limit marker but for the letters
  \<^verbatim>\<open>rate\<close> inside \<^verbatim>\<open>generate\<close>.  The test for a rate limit comes first and looks for \<^verbatim>\<open>rate\<close>
  anywhere in the message, so the blocked prompt is called six times, with six sleeps, and
  the result is the retry sentinel.  The claim says a safety block is terminal for the row
  and yields \<^verbatim>\<open>"(blocked)"\<close> with no retry.
\<close>

theorem call_gemini_safe_retries_blocked_prompt:
  "safety_blocked (lower ''Failed to generate content: blocked by safety filters'')
   \<and> call_gemini_safe remote_generate_blocked jitter_half [0] ''hello'' 6 world0
     = (Inr ''ERROR: too many retries due to rate limits'',
        \<lparr>w_calls = replicate 6 ([0], ''hello''),
         w_sleeps = [3 / 2, 5 / 2, 9 / 2, 17 / 2, 33 / 2, 30]\<rparr>)
   \<and> fst (call_gemini_safe remote_generate_blocked jitter_half [0] ''hello'' 6 world0)
     \<noteq> Inr ''(blocked)''"
proof -
  have a: "safety_blocked (lower ''Failed to generate content: blocked by safety filters'')"
    by code_simp
  have b: "call_gemini_safe remote_generate_blocked jitter_half [0] ''hello'' 6 world0
     = (Inr ''ERROR: too many retries due to rate limits'',
        \<lparr>w_calls = replicate 6 ([0], ''hello''),
         w_sleeps = [3 / 2, 5 / 2, 9 / 2, 17 / 2, 33 / 2, 30]\<rparr>)"
    by code_simp
  have c: "fst (call_gemini_safe remote_generate_blocked jitter_half [0] ''hello'' 6 world0)
     \<noteq> Inr ''(blocked)''"
    unfolding b by simp
  show ?thesis by (intro conjI a b c)
qed

section \<open>The fallback of a batch\<close>

lemma fallback_values_keys:
  "map fst (fallback_values remote hist ts) = map fst ts"
  by (induction ts arbitrary: hist) auto

lemma fallback_values_shape:
  "(k, v) \<in> set (fallback_values remote hist ts) \<Longrightarrow>
     (\<exists>out2. v = clean_label out2) \<or> (\<exists>e. v = ''ERROR: '' @ e)"
proof (induction ts arbitrary: hist)
  case Nil
  then show ?case by simp
next
  case (Cons t ts)
  then show ?case
    by (cases "remote hist (snd (fallback_call t))") (auto simp: fallback_value_def)
qed

text \<open>
  The fallback loop on a batch of distinct row indices: one call for each task whose index
  is not a key of \<open>parsed\<close>, in the order of the batch, and the values of these calls added
  to \<open>parsed\<close>.
\<close>

lemma fallback_spec:
  "distinct (map fst batch) \<Longrightarrow>
   snd (fallback remote batch parsed calls)
     = calls @ map fallback_call (filter (\<lambda>t. map_of parsed (fst t) = None) batch)
   \<and> map_of (fst (fallback remote batch parsed calls))
     = map_of parsed ++ map_of (fallback_values remote (map snd calls)
                                 (filter (\<lambda>t. map_of parsed (fst t) = None) batch))"
proof (induction batch arbitrary: parsed calls)
  case Nil
  show ?case by simp
next
  case (Cons t rest)
  obtain ridx row_text labels where t: "t = (ridx, row_text, labels)"
    by (cases t)
  have dist: "distinct (map fst rest)" and fresh: "ridx \<notin> fst ` set rest"
    using Cons.prems t by auto
  show ?case
  proof (cases "map_of parsed ridx = None")
    case False
    then obtain y where y: "map_of parsed ridx = Some y"
      by auto
    have eq: "fallback remote (t # rest) parsed calls = fallback remote rest parsed calls"
      by (simp add: t y)
    have filt: "filter (\<lambda>t. map_of parsed (fst t) = None) (t # rest)
        = filter (\<lambda>t. map_of parsed (fst t) = None) rest"
      by (simp add: t y)
    show ?thesis
      unfolding eq filt using dist by (rule Cons.IH)
  next
    case True
    let ?p = "single_prompt row_text labels"
    let ?v = "fallback_value (remote (map snd calls) ?p)"
    let ?parsed1 = "AList.update ridx ?v parsed"
    let ?calls1 = "calls @ [([ridx], ?p)]"
    let ?missing = "filter (\<lambda>t. map_of parsed (fst t) = None) rest"
    have step: "fallback remote (t # rest) parsed calls = fallback remote rest ?parsed1 ?calls1"
      using True unfolding t by (rule fallback_step)
    have same: "filter (\<lambda>t. map_of ?parsed1 (fst t) = None) rest = ?missing"
      using fresh by (intro filter_cong) (auto simp: update_conv')
    have ih: "snd (fallback remote rest ?parsed1 ?calls1) = ?calls1 @ map fallback_call ?missing
        \<and> map_of (fst (fallback remote rest ?parsed1 ?calls1))
          = map_of ?parsed1 ++ map_of (fallback_values remote (map snd ?calls1) ?missing)"
      using Cons.IH [OF dist, of ?parsed1 ?calls1] by (simp only: same)
    have notin: "map_of (fallback_values remote (map snd ?calls1) ?missing) ridx = None"
    proof -
      have "fst ` set (fallback_values remote (map snd ?calls1) ?missing) = fst ` set ?missing"
        using fallback_values_keys [of remote "map snd ?calls1" ?missing]
        by (metis set_map)
      also have "\<dots> \<subseteq> fst ` set rest"
        by auto
      finally show ?thesis
        using fresh by (auto simp: map_of_eq_None_iff)
    qed
    have maps: "map_of ?parsed1 ++ map_of (fallback_values remote (map snd ?calls1) ?missing)
        = map_of parsed
          ++ map_of ((ridx, ?v) # fallback_values remote (map snd ?calls1) ?missing)"
    proof
      fix k
      show "(map_of ?parsed1 ++ map_of (fallback_values remote (map snd ?calls1) ?missing)) k
          = (map_of parsed
             ++ map_of ((ridx, ?v) # fallback_values remote (map snd ?calls1) ?missing)) k"
        using notin by (cases "k = ridx") (auto simp: map_add_def update_conv' split: option.splits)
    qed
    have filt: "filter (\<lambda>t. map_of parsed (fst t) = None) (t # rest) = t # ?missing"
      using True by (simp add: t)
    have vals: "fallback_values remote (map snd calls) (t # ?missing)
        = (ridx, ?v) # fallback_values remote (map snd ?calls1) ?missing"
      by (simp add: t fallback_call_def)
    have c: "?calls1 @ map fallback_call ?missing = calls @ map fallback_call (t # ?missing)"
      by (simp add: t fallback_call_def)
    have A: "snd (fallback remote rest ?parsed1 ?calls1)
        = calls @ map fallback_call (t # ?missing)"
      by (simp only: ih c)
    have B: "map_of (fst (fallback remote rest ?parsed1 ?calls1))
        = map_of parsed
          ++ map_of ((ridx, ?v) # fallback_values remote (map snd ?calls1) ?missing)"
      by (simp only: ih maps)
    from A B show ?thesis
      unfolding step filt vals by (rule conjI)
  qed
qed

lemma fallback_values_nth:
  "i < length ts \<Longrightarrow>
   fallback_values remote hist ts ! i =
     (fst (ts ! i),
      fallback_value (remote (hist @ map (\<lambda>t. snd (fallback_call t)) (take i ts))
                        (snd (fallback_call (ts ! i)))))"
proof (induction ts arbitrary: hist i)
  case Nil
  then show ?case by simp
next
  case (Cons t ts)
  show ?case
  proof (cases i)
    case 0
    then show ?thesis by simp
  next
    case (Suc j)
    then have "j < length ts"
      using Cons.prems by simp
    then have "fallback_values remote (hist @ [snd (fallback_call t)]) ts ! j =
        (fst (ts ! j),
         fallback_value (remote ((hist @ [snd (fallback_call t)])
                                   @ map (\<lambda>t. snd (fallback_call t)) (take j ts))
                           (snd (fallback_call (ts ! j)))))"
      by (rule Cons.IH)
    then show ?thesis
      by (simp add: Suc)
  qed
qed

lemma classify_batch_returns:
  assumes "distinct (map fst batch)"
    and "remote (map snd calls) (build_batch_prompt batch) = Returns resp"
    and "parse_batch_output (response_text resp) = Inr parsed"
  shows "\<exists>result.
      classify_batch remote batch calls =
        (Inr result,
         calls @ (map fst batch, build_batch_prompt batch)
           # map fallback_call (filter (\<lambda>t. map_of parsed (fst t) = None) batch))
      \<and> map_of result =
          map_of parsed
          ++ map_of (fallback_values remote (map snd calls @ [build_batch_prompt batch])
               (filter (\<lambda>t. map_of parsed (fst t) = None) batch))"
proof -
  let ?calls1 = "calls @ [(map fst batch, build_batch_prompt batch)]"
  let ?missing = "filter (\<lambda>t. map_of parsed (fst t) = None) batch"
  have call: "call_openai remote (map fst batch) (build_batch_prompt batch) calls
      = (Inr (response_text resp), ?calls1)"
    using assms(2) by (simp add: call_openai_def)
  show ?thesis
  proof (cases "set (map fst batch) \<subseteq> set (map fst parsed)")
    case True
    then have "?missing = []"
      by (auto simp: filter_empty_conv map_of_eq_None_iff)
    moreover have "classify_batch remote batch calls = (Inr parsed, ?calls1)"
      using True by (simp add: classify_batch_def call assms(3))
    ultimately show ?thesis by simp
  next
    case False
    obtain parsed' calls2 where fb: "fallback remote batch parsed ?calls1 = (parsed', calls2)"
      by (cases "fallback remote batch parsed ?calls1")
    have "classify_batch remote batch calls = (Inr parsed', calls2)"
      using False by (simp add: classify_batch_def call assms(3) fb)
    moreover have "calls2 = ?calls1 @ map fallback_call ?missing"
      and "map_of parsed' = map_of parsed ++ map_of (fallback_values remote (map snd ?calls1) ?missing)"
      using fallback_spec [OF assms(1), of remote parsed ?calls1] by (simp_all add: fb)
    ultimately show ?thesis by simp
  qed
qed

text \<open>
  Claim C3, as amended.  Take a batch of distinct row indices whose batch call returns and
  whose reply parses, and let the identifiers parsed from the reply be a strict subset of
  the indices of the batch.  Then \<^verbatim>\<open>classify_batch\<close> returns a dictionary; after the batch
  call it makes exactly one call for each missing row, in the order of the batch, whose
  prompt is built from that row alone; the keys of the dictionary are exactly the row
  indices of the batch; a parsed row keeps its parsed label; and a missing row is bound to
  what the fallback makes of its own call: the first \<^verbatim>\<open>ans\<close>-number token of the reply,
  lowered; the stripped reply itself, free text or the empty string, when the reply has
  no such token; the marker \<^verbatim>\<open>ERROR:\<close> with the message when the call raises.
\<close>

theorem classify_batch_fallback_complete:
  assumes "distinct (map fst batch)"
    and "remote (map snd calls) (build_batch_prompt batch) = Returns resp"
    and "parse_batch_output (response_text resp) = Inr parsed"
    and "set (map fst parsed) \<subset> set (map fst batch)"
    and "missing = filter (\<lambda>t. fst t \<notin> set (map fst parsed)) batch"
    and "hist = map snd calls @ [build_batch_prompt batch]"
  shows "\<exists>result.
      classify_batch remote batch calls =
        (Inr result,
         calls @ (map fst batch, build_batch_prompt batch) # map fallback_call missing)
      \<and> missing \<noteq> []
      \<and> set (map fst result) = set (map fst batch)
      \<and> (\<forall>i < length missing.
            map_of result (fst (missing ! i)) =
              Some (fallback_value
                (remote (hist @ map (\<lambda>t. snd (fallback_call t)) (take i missing))
                   (snd (fallback_call (missing ! i))))))
      \<and> (\<forall>k v. map_of parsed k = Some v \<longrightarrow> map_of result k = Some v)
      \<and> (\<forall>r. fallback_value r =
            (case r of
               Returns resp' \<Rightarrow>
                 (case LABEL_RE_findall (response_text resp') of
                    [] \<Rightarrow> strip (response_text resp')
                  | m # ms \<Rightarrow> lower m)
             | Raises e \<Rightarrow> ''ERROR: '' @ e))"
proof -
  define vals where "vals = fallback_values remote hist missing"
  have missing: "missing = filter (\<lambda>t. map_of parsed (fst t) = None) batch"
    unfolding assms(5) by (intro filter_cong) (auto simp: map_of_eq_None_iff)
  obtain result where run: "classify_batch remote batch calls =
        (Inr result,
         calls @ (map fst batch, build_batch_prompt batch) # map fallback_call missing)"
    and res: "map_of result = map_of parsed ++ map_of vals"
    using classify_batch_returns [of batch remote calls resp parsed] assms(1,2,3)
    unfolding missing [symmetric] assms(6) [symmetric] vals_def by blast
  have keys_vals: "map fst vals = map fst missing"
    unfolding vals_def by (rule fallback_values_keys)
  then have len: "length vals = length missing"
    by (metis length_map)
  have dist_vals: "distinct (map fst vals)"
    unfolding keys_vals missing using assms(1) by (simp add: distinct_map_filter)
  obtain j where "j \<in> set (map fst batch)" "j \<notin> set (map fst parsed)"
    using assms(4) by blast
  then have nonempty: "missing \<noteq> []"
    unfolding assms(5) by (auto simp: filter_empty_conv)
  have "dom (map_of result) = dom (map_of parsed) \<union> dom (map_of vals)"
    by (simp add: res Un_commute)
  moreover have "dom (map_of vals) = fst ` set missing"
    using keys_vals by (metis dom_map_of_conv_image_fst set_map)
  moreover have "fst ` set missing = set (map fst batch) - set (map fst parsed)"
    unfolding assms(5) by auto
  ultimately have keys: "set (map fst result) = set (map fst batch)"
    using assms(4) by (auto simp: dom_map_of_conv_image_fst)
  have bound: "map_of result (fst (missing ! i)) =
      Some (fallback_value
        (remote (hist @ map (\<lambda>t. snd (fallback_call t)) (take i missing))
           (snd (fallback_call (missing ! i)))))"
    if "i < length missing" for i
  proof -
    let ?v = "fallback_value
        (remote (hist @ map (\<lambda>t. snd (fallback_call t)) (take i missing))
           (snd (fallback_call (missing ! i))))"
    have "vals ! i = (fst (missing ! i), ?v)"
      unfolding vals_def using that by (rule fallback_values_nth)
    moreover have "vals ! i \<in> set vals"
      using that len by simp
    ultimately have "(fst (missing ! i), ?v) \<in> set vals"
      by simp
    with dist_vals have "map_of vals (fst (missing ! i)) = Some ?v"
      by (rule map_of_is_SomeI)
    then show ?thesis
      by (simp add: res)
  qed
  have kept: "map_of result k = Some v" if "map_of parsed k = Some v" for k v
  proof -
    have "k \<in> set (map fst parsed)"
      using that by (metis domI dom_map_of_conv_image_fst set_map)
    then have "k \<notin> fst ` set missing"
      unfolding assms(5) by force
    then have "map_of vals k = None"
      using keys_vals by (metis map_of_eq_None_iff set_map)
    then show ?thesis using that by (simp add: res map_add_def)
  qed
  have shape: "fallback_value r =
      (case r of
         Returns resp' \<Rightarrow>
           (case LABEL_RE_findall (response_text resp') of
              [] \<Rightarrow> strip (response_text resp')
            | m # ms \<Rightarrow> lower m)
       | Raises e \<Rightarrow> ''ERROR: '' @ e)" for r
    by (simp add: fallback_value_def clean_label_findall split: reply.splits)
  show ?thesis
    using run nonempty keys bound kept shape by blast
qed

theorem classify_batch_fallback_complete_witness:
  "classify_batch remote_partial batch3 [] =
     (Inr [(0, ''ans1''), (1, ''ans0''), (2, ''ERROR: Connection reset'')],
      [([0, 1, 2], build_batch_prompt batch3),
       ([1], single_prompt ''ans0 or ans1: second'' [''ans0'', ''ans1'']),
       ([2], single_prompt ''ans0 or ans1: third'' [''ans0'', ''ans1''])])
   \<and> parse_batch_output (response_text
         \<lparr>output_text = Some (''ID=0 ans1'' @ [CHR 0x0A] @ ''I am not sure about the rest''),
          output_items = []\<rparr>) = Inr [(0, ''ans1'')]
   \<and> (\<exists>result. fst (classify_batch remote_partial batch3 []) = Inr result
         \<and> set (map fst result) = {0, 1, 2}
         \<and> map_of result 0 = Some ''ans1''
         \<and> map_of result 1 = Some ''ans0''
         \<and> map_of result 2 = Some ''ERROR: Connection reset'')"
proof -
  let ?resp = "\<lparr>output_text = Some (''ID=0 ans1'' @ [CHR 0x0A] @ ''I am not sure about the rest''),
      output_items = []\<rparr>"
  let ?t1 = "(1::nat, ''ans0 or ans1: second'', [''ans0'', ''ans1''])"
  let ?t2 = "(2::nat, ''ans0 or ans1: third'', [''ans0'', ''ans1''])"
  let ?parsed = "[(0::nat, ''ans1'')]"
  let ?hist = "[build_batch_prompt batch3]"
  have d: "distinct (map fst batch3)"
    by (simp add: batch3_def)
  have r: "remote_partial (map snd []) (build_batch_prompt batch3) = Returns ?resp"
    by (simp add: remote_partial_def text_reply_def)
  have p: "parse_batch_output (response_text ?resp) = Inr ?parsed"
    by code_simp
  have s: "set (map fst ?parsed) \<subset> set (map fst batch3)"
    by (auto simp: batch3_def)
  have m: "[?t1, ?t2] = filter (\<lambda>t. fst t \<notin> set (map fst ?parsed)) batch3"
    by (simp add: batch3_def)
  have h: "?hist = map snd [] @ [build_batch_prompt batch3]"
    by simp
  have v1: "fallback_value (remote_partial ?hist (snd (fallback_call ?t1))) = ''ans0''"
    by (simp add: remote_partial_def text_reply_def) code_simp
  have v2: "fallback_value (remote_partial (?hist @ [snd (fallback_call ?t1)])
      (snd (fallback_call ?t2))) = ''ERROR: Connection reset''"
    by (simp add: remote_partial_def fallback_value_def)
  have run: "classify_batch remote_partial batch3 [] =
     (Inr [(0, ''ans1''), (1, ''ans0''), (2, ''ERROR: Connection reset'')],
      [([0, 1, 2], build_batch_prompt batch3),
       ([1], single_prompt ''ans0 or ans1: second'' [''ans0'', ''ans1'']),
       ([2], single_prompt ''ans0 or ans1: third'' [''ans0'', ''ans1''])])"
    by code_simp
  obtain result where res: "classify_batch remote_partial batch3 [] =
        (Inr result,
         [] @ (map fst batch3, build_batch_prompt batch3) # map fallback_call [?t1, ?t2])"
    and keys: "set (map fst result) = set (map fst batch3)"
    and bound: "\<forall>i < length [?t1, ?t2].
        map_of result (fst ([?t1, ?t2] ! i)) =
          Some (fallback_value
            (remote_partial (?hist @ map (\<lambda>t. snd (fallback_call t)) (take i [?t1, ?t2]))
               (snd (fallback_call ([?t1, ?t2] ! i)))))"
    and kept: "\<forall>k v. map_of ?parsed k = Some v \<longrightarrow> map_of result k = Some v"
    using classify_batch_fallback_complete
      [where batch = batch3 and remote = remote_partial and calls = "[]" and resp = ?resp
        and parsed = ?parsed and missing = "[?t1, ?t2]" and hist = ?hist]
      d r p s m h
    by blast
  have "fst (classify_batch remote_partial batch3 []) = Inr result"
    by (simp add: res)
  moreover have "set (map fst result) = {0, 1, 2}"
    unfolding keys by (auto simp: batch3_def)
  moreover have "map_of result 0 = Some ''ans1''"
    using kept by simp
  moreover have "map_of result 1 = Some ''ans0''"
    using bound [rule_format, of 0] v1 by simp
  moreover have "map_of result 2 = Some ''ERROR: Connection reset''"
    using bound [rule_format, of 1] v2 by simp
  ultimately have "\<exists>result. fst (classify_batch remote_partial batch3 []) = Inr result
         \<and> set (map fst result) = {0, 1, 2}
         \<and> map_of result 0 = Some ''ans1''
         \<and> map_of result 1 = Some ''ans0''
         \<and> map_of result 2 = Some ''ERROR: Connection reset''"
    by blast
  then show ?thesis
    using run p by (intro conjI)
qed

text \<open>
  The claim as it is written fails when a single-row reply has no token: the batch reply
  names row 0 only, the reply to the call for row 1 is empty and the one for row 2 is free
  text, and the rows are bound to the empty string and to that text, which are neither a
  label (a text that is one \<^verbatim>\<open>ans\<close>-number token) nor an error marker.
\<close>

theorem classify_batch_fallback_raw_counterexample:
  "parse_batch_output ''ID=0 ans1'' = Inr [(0, ''ans1'')]
   \<and> fst (classify_batch remote_silent batch3 []) =
       Inr [(0, ''ans1''), (1, []), (2, ''Neither of them'')]
   \<and> LABEL_RE_findall [] = []
   \<and> \<not> prefix ''ERROR: '' []
   \<and> LABEL_RE_findall ''Neither of them'' = []
   \<and> \<not> prefix ''ERROR: '' ''Neither of them''"
  by code_simp

section \<open>What the skips do guarantee\<close>

text \<open>
  The parts of the claims about skipped rows that hold on the batch script: a row with
  blank input or a filled output cell is no task, no call is made for it, and a table with
  no task at all is returned as it is, with no call.
\<close>

lemma collect_tasks_ids:
  "fst ` set (collect_tasks df items tasks) =
     fst ` set tasks
     \<union> {idx. \<exists>val. (idx, val) \<in> set items \<and> \<not> blank val \<and> \<not> filled (colB df idx)}"
proof (induction items arbitrary: tasks)
  case Nil
  show ?case by simp
next
  case (Cons item items)
  obtain idx val where item: "item = (idx, val)"
    by (cases item)
  show ?case
  proof (cases "blank val \<or> filled (colB df idx)")
    case True
    then have "collect_tasks df (item # items) tasks = collect_tasks df items tasks"
      by (auto simp: item)
    then show ?thesis
      using True by (auto simp: Cons item)
  next
    case False
    then have "collect_tasks df (item # items) tasks =
        collect_tasks df items
          (tasks @ [(idx, strip (cell_str val), extract_labels (strip (cell_str val)))])"
      by (simp add: item)
    then show ?thesis
      using False by (auto simp: Cons item)
  qed
qed

lemma collect_tasks_none:
  "(\<And>idx val. (idx, val) \<in> set items \<Longrightarrow> blank val \<or> filled (colB df idx)) \<Longrightarrow>
   collect_tasks df items tasks = tasks"
proof (induction items arbitrary: tasks)
  case Nil
  show ?case by simp
next
  case (Cons item items)
  obtain idx val where item: "item = (idx, val)"
    by (cases item)
  have "blank val \<or> filled (colB df idx)"
    using Cons.prems [of idx val] by (simp add: item)
  moreover have "collect_tasks df items tasks = tasks"
    using Cons.prems by (intro Cons.IH) simp
  ultimately show ?case
    by (auto simp: item)
qed

lemma colA_items_set:
  "(idx, val) \<in> set (colA_items df) \<longleftrightarrow> idx < length df \<and> val = colA df idx"
proof
  assume "(idx, val) \<in> set (colA_items df)"
  then obtain i where "i < length df" "idx = [0..<length df] ! i" "val = map fst df ! i"
    unfolding colA_items_def by (auto simp: set_zip)
  then show "idx < length df \<and> val = colA df idx"
    by (simp add: colA_def)
next
  assume r: "idx < length df \<and> val = colA df idx"
  let ?z = "zip [0..<length df] (map fst df)"
  have "idx < length ?z" and "?z ! idx = (idx, val)"
    using r by (simp_all add: colA_def)
  then show "(idx, val) \<in> set (colA_items df)"
    unfolding colA_items_def by (metis nth_mem)
qed

declare chunks.simps [simp del]

lemma chunks_Nil: "chunks [] n = []"
  by (simp add: chunks.simps)

lemma batch_run_nothing_to_do:
  assumes "\<And>idx. idx < length df \<Longrightarrow> blank (colA df idx) \<or> filled (colB df idx)"
    and "batch_size \<noteq> 0"
  shows "batch_run remote batch_size df = (Inr df, [])"
proof -
  have "collect_tasks df (colA_items df) [] = []"
    using assms(1) by (intro collect_tasks_none) (auto simp: colA_items_set)
  then show ?thesis
    using assms(2) by (simp add: batch_run_def chunked_def chunks_Nil)
qed

lemma chunks_subset: "b \<in> set (chunks seq n) \<Longrightarrow> set b \<subseteq> set seq"
proof (induction seq n rule: chunks.induct)
  case (1 seq n)
  show ?case
  proof (cases "n = 0 \<or> seq = []")
    case True
    then show ?thesis using "1.prems" by (simp add: chunks.simps)
  next
    case False
    then have "b = take n seq \<or> b \<in> set (chunks (drop n seq) n)"
      using "1.prems" by (subst (asm) chunks.simps) simp
    then show ?thesis
    proof
      assume "b = take n seq"
      then show ?thesis by (simp add: set_take_subset)
    next
      assume "b \<in> set (chunks (drop n seq) n)"
      then have "set b \<subseteq> set (drop n seq)"
        using False by (intro "1.IH") auto
      then show ?thesis
        using set_drop_subset [of n seq] by blast
    qed
  qed
qed

lemma call_openai_calls:
  "snd (call_openai remote rows prompt calls) = calls @ [(rows, prompt)]"
  by (simp add: call_openai_def split: reply.splits)

lemma fallback_calls_rows:
  "c \<in> set (snd (fallback remote batch parsed calls)) \<Longrightarrow>
   c \<in> set calls \<or> set (fst c) \<subseteq> fst ` set batch"
proof (induction batch arbitrary: parsed calls)
  case Nil
  then show ?case by simp
next
  case (Cons t rest)
  obtain ridx row_text labels where t: "t = (ridx, row_text, labels)"
    by (cases t)
  show ?case
  proof (cases "map_of parsed ridx")
    case (Some y)
    then have "c \<in> set (snd (fallback remote rest parsed calls))"
      using Cons.prems by (simp add: t)
    then show ?thesis using Cons.IH by fastforce
  next
    case None
    let ?p = "single_prompt row_text labels"
    have "c \<in> set (snd (fallback remote rest
        (AList.update ridx (fallback_value (remote (map snd calls) ?p)) parsed)
        (calls @ [([ridx], ?p)])))"
      using Cons.prems None unfolding t by (simp only: fallback_step)
    then have "c \<in> set (calls @ [([ridx], ?p)]) \<or> set (fst c) \<subseteq> fst ` set rest"
      by (rule Cons.IH)
    then show ?thesis by (auto simp: t)
  qed
qed

lemma classify_batch_calls_rows:
  "c \<in> set (snd (classify_batch remote batch calls)) \<Longrightarrow>
   c \<in> set calls \<or> set (fst c) \<subseteq> fst ` set batch"
proof -
  assume c: "c \<in> set (snd (classify_batch remote batch calls))"
  let ?calls1 = "calls @ [(map fst batch, build_batch_prompt batch)]"
  have first: "snd (call_openai remote (map fst batch) (build_batch_prompt batch) calls) = ?calls1"
    by (rule call_openai_calls)
  obtain r calls1 where co:
    "call_openai remote (map fst batch) (build_batch_prompt batch) calls = (r, calls1)"
    by (cases "call_openai remote (map fst batch) (build_batch_prompt batch) calls")
  have calls1: "calls1 = ?calls1"
    using first co by simp
  have "c \<in> set ?calls1
      \<or> (\<exists>parsed. c \<in> set (snd (fallback remote batch parsed ?calls1)))"
  proof (cases r)
    case (Inl e)
    then have "classify_batch remote batch calls = (Inl (RemoteError e), ?calls1)"
      by (simp add: classify_batch_def co calls1)
    then show ?thesis using c by simp
  next
    case (Inr out)
    show ?thesis
    proof (cases "parse_batch_output out")
      case (Inl x)
      then have "classify_batch remote batch calls = (Inl x, ?calls1)"
        by (simp add: classify_batch_def co calls1 Inr)
      then show ?thesis using c by simp
    next
      case parsed: (Inr parsed)
      have "snd (classify_batch remote batch calls) = ?calls1
          \<or> snd (classify_batch remote batch calls) = snd (fallback remote batch parsed ?calls1)"
        by (cases "fallback remote batch parsed ?calls1")
           (simp add: classify_batch_def co calls1 Inr parsed)
      then show ?thesis using c by auto
    qed
  qed
  then have "c \<in> set ?calls1 \<or> set (fst c) \<subseteq> fst ` set batch"
    using fallback_calls_rows by blast
  then show ?thesis by auto
qed

lemma process_batches_calls_rows:
  "c \<in> set (snd (process_batches remote batches df calls)) \<Longrightarrow>
   c \<in> set calls \<or> (\<exists>b \<in> set batches. set (fst c) \<subseteq> fst ` set b)"
proof (induction batches arbitrary: df calls)
  case Nil
  then show ?case by simp
next
  case (Cons b bs)
  obtain r calls1 where cb: "classify_batch remote b calls = (r, calls1)"
    by (cases "classify_batch remote b calls")
  have head: "c \<in> set calls1 \<Longrightarrow> c \<in> set calls \<or> set (fst c) \<subseteq> fst ` set b"
    using classify_batch_calls_rows [of c remote b calls] by (simp add: cb)
  have "c \<in> set calls1 \<or> (\<exists>df'. c \<in> set (snd (process_batches remote bs df' calls1)))"
    using Cons.prems by (auto simp: cb split: sum.splits)
  then have "c \<in> set calls1 \<or> (\<exists>b' \<in> set bs. set (fst c) \<subseteq> fst ` set b')"
    using Cons.IH by blast
  then show ?case using head by auto
qed

lemma batch_run_no_call_for_skipped_row:
  assumes "idx < length df" and "blank (colA df idx) \<or> filled (colB df idx)"
    and "c \<in> set (snd (batch_run remote batch_size df))"
  shows "idx \<notin> set (fst c)"
proof -
  let ?tasks = "collect_tasks df (colA_items df) []"
  have not_task: "idx \<notin> fst ` set ?tasks"
    using assms(1,2) collect_tasks_ids [of df "colA_items df" "[]"]
    by (auto simp: colA_items_set)
  have "\<exists>b. set b \<subseteq> set ?tasks \<and> set (fst c) \<subseteq> fst ` set b"
  proof (cases "batch_size \<le> 0")
    case True
    then show ?thesis
      using assms(3) by (auto simp: batch_run_def chunked_def split: if_splits)
  next
    case False
    then have "c \<in> set (snd (process_batches remote (chunks ?tasks (nat batch_size)) df []))"
      using assms(3) by (simp add: batch_run_def chunked_def)
    then obtain b where "b \<in> set (chunks ?tasks (nat batch_size))" "set (fst c) \<subseteq> fst ` set b"
      using process_batches_calls_rows by fastforce
    then show ?thesis using chunks_subset by blast
  qed
  then show ?thesis using not_task by blast
qed

text \<open>The same for the row loop of the Gemini script, where the written cell is the row's own.\<close>

lemma attempts_calls:
  "\<exists>k. w_calls (snd (attempts remote jitter rows prompt a left w))
        = w_calls w @ replicate k (rows, prompt)"
proof (induction left arbitrary: a w)
  case 0
  have "w_calls w = w_calls w @ replicate 0 (rows, prompt)" by simp
  then show ?case by (metis attempts.simps(1) snd_conv)
next
  case (Suc left)
  let ?w1 = "w\<lparr>w_calls := w_calls w @ [(rows, prompt)]\<rparr>"
  have one: "w_calls ?w1 = w_calls w @ replicate 1 (rows, prompt)"
    by simp
  show ?case
  proof (cases "remote (map snd (w_calls w)) prompt")
    case (Answers resp)
    then have "snd (attempts remote jitter rows prompt a (Suc left) w) = ?w1"
      by (simp add: Let_def)
    then show ?thesis using one by metis
  next
    case Interrupted
    then have "snd (attempts remote jitter rows prompt a (Suc left) w) = ?w1"
      by (simp add: Let_def)
    then show ?thesis using one by metis
  next
    case (Fails e)
    show ?thesis
    proof (cases "rate_limited (lower e)")
      case False
      then have "snd (attempts remote jitter rows prompt a (Suc left) w) = ?w1"
        using Fails by (simp add: Let_def)
      then show ?thesis using one by metis
    next
      case True
      let ?w2 = "?w1\<lparr>w_sleeps := w_sleeps ?w1
          @ [min (2 ^ a + jitter (length (w_sleeps ?w1))) 30]\<rparr>"
      have "attempts remote jitter rows prompt a (Suc left) w
          = attempts remote jitter rows prompt (Suc a) left ?w2"
        using Fails True by (simp add: Let_def)
      moreover obtain k where "w_calls (snd (attempts remote jitter rows prompt (Suc a) left ?w2))
          = w_calls ?w2 @ replicate k (rows, prompt)"
        using Suc.IH by blast
      ultimately have "w_calls (snd (attempts remote jitter rows prompt a (Suc left) w))
          = w_calls w @ replicate (Suc k) (rows, prompt)"
        by (simp add: replicate_app_Cons_same)
      then show ?thesis by blast
    qed
  qed
qed

lemma call_gemini_safe_calls_rows:
  "c \<in> set (w_calls (snd (call_gemini_safe remote jitter rows prompt retries w))) \<Longrightarrow>
   c \<in> set (w_calls w) \<or> fst c = rows"
  using attempts_calls [of remote jitter rows prompt 0 retries w]
  by (auto simp: call_gemini_safe_def)

lemma colB_set_colB_other: "j \<noteq> idx \<Longrightarrow> colB (set_colB df idx v) j = colB df j"
  by (simp add: colB_def set_colB_def)

lemma gemini_rows_frame:
  assumes "\<And>val. (j, val) \<in> set items \<Longrightarrow> blank val \<or> filled (colB df j)"
  shows "colB (fst (gemini_rows remote jitter items df w)) j = colB df j
    \<and> (\<forall>c \<in> set (w_calls (snd (gemini_rows remote jitter items df w))).
          c \<in> set (w_calls w) \<or> j \<notin> set (fst c))"
  using assms
proof (induction items arbitrary: df w)
  case Nil
  show ?case by simp
next
  case (Cons item items)
  obtain idx val where item: "item = (idx, val)"
    by (cases item)
  have rest: "blank val' \<or> filled (colB df j)" if "(j, val') \<in> set items" for val'
    using Cons.prems [of val'] that by simp
  show ?case
  proof (cases "blank val \<or> filled (colB df idx)")
    case True
    then have "gemini_rows remote jitter (item # items) df w = gemini_rows remote jitter items df w"
      by (auto simp: item)
    then show ?thesis
      using Cons.IH [of df w] rest by simp
  next
    case False
    then have ne: "j \<noteq> idx"
      using Cons.prems [of val] by (auto simp: item)
    let ?call = "call_gemini_safe remote jitter [idx] (strip (cell_str val)) 6 w"
    obtain r w' where call: "?call = (r, w')"
      by (cases ?call)
    have calls: "c \<in> set (w_calls w) \<or> j \<notin> set (fst c)" if "c \<in> set (w_calls w')" for c
      using call_gemini_safe_calls_rows [of c remote jitter "[idx]" "strip (cell_str val)" 6 w]
        that ne by (auto simp: call)
    have written: "colB (fst (gemini_rows remote jitter items (set_colB df idx v) w')) j = colB df j
        \<and> (\<forall>c \<in> set (w_calls (snd (gemini_rows remote jitter items (set_colB df idx v) w'))).
              c \<in> set (w_calls w) \<or> j \<notin> set (fst c))" for v
    proof -
      have "colB (fst (gemini_rows remote jitter items (set_colB df idx v) w')) j
            = colB (set_colB df idx v) j
          \<and> (\<forall>c \<in> set (w_calls (snd (gemini_rows remote jitter items (set_colB df idx v) w'))).
                c \<in> set (w_calls w') \<or> j \<notin> set (fst c))"
        using rest by (intro Cons.IH) (simp add: colB_set_colB_other ne)
      then show ?thesis
        using calls by (auto simp: colB_set_colB_other ne)
    qed
    show ?thesis
    proof (cases r)
      case (Inr answer)
      then have eq: "gemini_rows remote jitter (item # items) df w =
          gemini_rows remote jitter items
            (set_colB df idx (if answer \<noteq> [] then answer else ''(empty response)'')) w'"
        using False by (simp add: item call)
      show ?thesis unfolding eq by (rule written)
    next
      case (Inl x)
      show ?thesis
      proof (cases x)
        case KeyboardInterrupt
        then have "gemini_rows remote jitter (item # items) df w = (df, w')"
          using False Inl by (simp add: item call)
        then show ?thesis using calls by simp
      next
        case (Exception e)
        then have eq: "gemini_rows remote jitter (item # items) df w =
            gemini_rows remote jitter items (set_colB df idx (''ERROR: '' @ e)) w'"
          using False Inl by (simp add: item call)
        show ?thesis unfolding eq by (rule written)
      qed
    qed
  qed
qed

lemma gemini_run_skipped_row_untouched:
  assumes "idx < length df" and "blank (colA df idx) \<or> filled (colB df idx)"
  shows "colB (fst (gemini_run remote jitter df)) idx = colB df idx
    \<and> (\<forall>c \<in> set (w_calls (snd (gemini_run remote jitter df))). idx \<notin> set (fst c))"
  using gemini_rows_frame [of idx "colA_items df" df remote jitter "\<lparr>w_calls = [], w_sleeps = []\<rparr>"]
    assms
  by (simp add: gemini_run_def colA_items_set)

section \<open>Output paths\<close>

declare replace.simps [simp del]

lemma replace_absent:
  "old \<noteq> [] \<Longrightarrow> \<not> contains old s \<Longrightarrow> replace old new s = s"
proof (induction s)
  case Nil
  then show ?case by (subst replace.simps) simp
next
  case (Cons c cs)
  then have "\<not> prefix old (c # cs)" and "replace old new cs = cs"
    by simp_all
  then show ?case
    using Cons.prems(1) by (subst replace.simps) simp
qed

lemma replace_xlsx_stem:
  "CHR ''.'' \<notin> set stem \<Longrightarrow> replace ''.xlsx'' new (stem @ ''.xlsx'') = stem @ new"
proof (induction stem)
  case Nil
  have "replace ''.xlsx'' new [] = []"
    by (subst replace.simps) simp
  then show ?case
    by (subst replace.simps) simp
next
  case (Cons c stem)
  then have "\<not> prefix ''.xlsx'' ((c # stem) @ ''.xlsx'')"
    by auto
  then show ?case
    using Cons by (subst replace.simps) simp
qed

text \<open>
  The output path is the one the documentation of the scripts gives when the name has no
  dot but the one of the extension \<^verbatim>\<open>.xlsx\<close>, and it is the input path when \<^verbatim>\<open>.xlsx\<close> does not
  occur in the input path.
\<close>

lemma out_path_plain_name:
  "CHR ''.'' \<notin> set stem \<Longrightarrow>
   out_path_results (stem @ ''.xlsx'') = stem @ ''_with_results.xlsx''
   \<and> out_path_answers (stem @ ''.xlsx'') = stem @ ''_with_answers.xlsx''"
  by (simp add: out_path_results_def out_path_answers_def replace_xlsx_stem)

lemma out_path_other_name:
  "\<not> contains ''.xlsx'' excel_path \<Longrightarrow>
   out_path_results excel_path = excel_path \<and> out_path_answers excel_path = excel_path"
  by (simp add: out_path_results_def out_path_answers_def replace_absent)

text \<open>
  So for a path where \<^verbatim>\<open>.xlsx\<close> does not occur, a save that goes through puts the result in
  the place of the workbook that was read; and with the sheet option left at its default
  and a writer that starts from a workbook with no sheet, the save raises.
\<close>

lemma gemini_script_writes_over_input:
  "\<not> contains ''.xlsx'' excel_path \<Longrightarrow> fs excel_path = Some df \<Longrightarrow>
   gemini_script wr remote jitter excel_path sheet fs = Inr fs' \<Longrightarrow>
   fs' excel_path = Some (fst (gemini_run remote jitter df))"
  by (auto simp: gemini_script_def save_def out_path_other_name
      split: option.splits sheet_arg.splits list.splits)

lemma batch_script_writes_over_input:
  "\<not> contains ''.xlsx'' excel_path \<Longrightarrow> fs excel_path = Some df \<Longrightarrow>
   batch_script wr remote batch_size excel_path sheet fs = Inr fs' \<Longrightarrow>
   Inr (the (fs' excel_path)) = fst (batch_run remote batch_size df)"
  by (auto simp: batch_script_def save_def out_path_other_name
      split: option.splits sheet_arg.splits list.splits sum.splits)

lemma save_default_sheet:
  "wr_opens wr out_path = None \<Longrightarrow> wr_sheetnames wr = [] \<Longrightarrow>
   save wr fs out_path SheetDefault df = Inl (IndexError 0)"
  by (simp add: save_def)

section \<open>The batch script against faithful replies\<close>

lemma update_keys_image:
  "fst ` set (AList.update k v al) = insert k (fst ` set al)"
proof -
  have "dom (map_of (AList.update k v al)) = insert k (dom (map_of al))"
    by (simp add: update_conv')
  then show ?thesis
    by (simp add: dom_map_of_conv_image_fst)
qed

lemma fallback_keys:
  "fst ` set (fst (fallback remote batch parsed calls)) \<subseteq> fst ` set parsed \<union> fst ` set batch"
proof (induction batch arbitrary: parsed calls)
  case Nil
  show ?case by simp
next
  case (Cons t rest)
  obtain ridx row_text labels where t: "t = (ridx, row_text, labels)"
    by (cases t)
  show ?case
  proof (cases "map_of parsed ridx")
    case (Some y)
    then have "fallback remote (t # rest) parsed calls = fallback remote rest parsed calls"
      by (simp add: t)
    then show ?thesis
      using Cons.IH [of parsed calls] by auto
  next
    case None
    let ?p = "single_prompt row_text labels"
    let ?parsed1 = "AList.update ridx (fallback_value (remote (map snd calls) ?p)) parsed"
    have "fallback remote (t # rest) parsed calls
        = fallback remote rest ?parsed1 (calls @ [([ridx], ?p)])"
      using None unfolding t by (rule fallback_step)
    then show ?thesis
      using Cons.IH [of ?parsed1 "calls @ [([ridx], ?p)]"]
      by (auto simp: t update_keys_image)
  qed
qed

lemma classify_batch_keys:
  assumes "faithful remote" and "classify_batch remote batch calls = (Inr result, calls')"
  shows "fst ` set result \<subseteq> fst ` set batch"
proof -
  let ?calls1 = "calls @ [(map fst batch, build_batch_prompt batch)]"
  obtain resp where resp: "remote (map snd calls) (build_batch_prompt batch) = Returns resp"
    using assms(2)
    by (cases "remote (map snd calls) (build_batch_prompt batch)")
       (auto simp: classify_batch_def call_openai_def)
  obtain parsed where p: "parse_batch_output (response_text resp) = Inr parsed"
    using assms(2) resp
    by (cases "parse_batch_output (response_text resp)")
       (auto simp: classify_batch_def call_openai_def)
  have parsed: "fst ` set parsed \<subseteq> fst ` set batch"
    using assms(1) resp p unfolding faithful_def by blast
  have alt: "result = parsed \<or> result = fst (fallback remote batch parsed ?calls1)"
    using assms(2) resp p
    by (cases "fallback remote batch parsed ?calls1")
       (auto simp: classify_batch_def call_openai_def split: if_splits)
  have "fst ` set (fst (fallback remote batch parsed ?calls1)) \<subseteq> fst ` set batch"
    using parsed fallback_keys [of remote batch parsed ?calls1] by blast
  then show ?thesis
    using alt parsed by (elim disjE) simp_all
qed

lemma write_results_frame:
  "write_results df results = Inr df' \<Longrightarrow> j \<notin> fst ` set results \<Longrightarrow> colB df' j = colB df j"
proof (induction results arbitrary: df)
  case Nil
  then show ?case by simp
next
  case (Cons p results)
  obtain ridx label where p: "p = (ridx, label)"
    by (cases p)
  have ne: "j \<noteq> ridx" and rest: "j \<notin> fst ` set results"
    using Cons.prems(2) by (auto simp: p)
  have "write_results (set_colB df ridx label) results = Inr df'"
    using Cons.prems(1) by (simp add: p split: if_splits)
  then have "colB df' j = colB (set_colB df ridx label) j"
    using rest by (rule Cons.IH)
  then show ?case
    using ne by (simp add: colB_set_colB_other)
qed

lemma process_batches_frame:
  assumes "faithful remote"
  shows "process_batches remote batches df calls = (Inr df', calls') \<Longrightarrow>
         (\<And>b. b \<in> set batches \<Longrightarrow> j \<notin> fst ` set b) \<Longrightarrow> colB df' j = colB df j"
proof (induction batches arbitrary: df calls)
  case Nil
  then show ?case by simp
next
  case (Cons b bs)
  obtain r calls1 where cb: "classify_batch remote b calls = (r, calls1)"
    by (cases "classify_batch remote b calls")
  obtain results where r: "r = Inr results"
    using Cons.prems(1) by (cases r) (simp_all add: cb)
  obtain df1 where wr: "write_results df results = Inr df1"
    using Cons.prems(1) by (cases "write_results df results") (simp_all add: cb r)
  have next_run: "process_batches remote bs df1 calls1 = (Inr df', calls')"
    using Cons.prems(1) by (simp add: cb r wr)
  have "fst ` set results \<subseteq> fst ` set b"
    using assms cb r by (intro classify_batch_keys) auto
  then have "j \<notin> fst ` set results"
    using Cons.prems(2) [of b] by auto
  then have "colB df1 j = colB df j"
    using wr by (intro write_results_frame)
  moreover have "colB df' j = colB df1 j"
    using next_run Cons.prems(2) by (intro Cons.IH) auto
  ultimately show ?case by simp
qed

lemma batch_run_faithful_frame:
  assumes "faithful remote"
    and "batch_run remote batch_size df = (Inr df', calls')"
    and "idx < length df"
    and "blank (colA df idx) \<or> filled (colB df idx)"
  shows "colB df' idx = colB df idx"
proof -
  let ?tasks = "collect_tasks df (colA_items df) []"
  have not_task: "idx \<notin> fst ` set ?tasks"
    using assms(3,4) collect_tasks_ids [of df "colA_items df" "[]"]
    by (auto simp: colA_items_set)
  show ?thesis
  proof (cases "batch_size \<le> 0")
    case True
    then have "df' = df"
      using assms(2) by (auto simp: batch_run_def chunked_def split: if_splits)
    then show ?thesis by simp
  next
    case False
    then have run: "process_batches remote (chunks ?tasks (nat batch_size)) df [] = (Inr df', calls')"
      using assms(2) by (simp add: batch_run_def chunked_def)
    have "idx \<notin> fst ` set b" if "b \<in> set (chunks ?tasks (nat batch_size))" for b
      using chunks_subset [OF that] not_task by blast
    then show ?thesis
      using process_batches_frame [OF assms(1) run] by blast
  qed
qed

section \<open>The batches of a run\<close>

text \<open>
  The batches of a run have distinct row indices, which is what the property of the
  fallback asks of a batch.
\<close>

lemma collect_tasks_indices:
  "map fst (collect_tasks df items tasks) =
     map fst tasks
     @ map fst (filter (\<lambda>item. \<not> blank (snd item) \<and> \<not> filled (colB df (fst item))) items)"
proof (induction items arbitrary: tasks)
  case Nil
  show ?case by simp
next
  case (Cons item items)
  obtain idx val where item: "item = (idx, val)"
    by (cases item)
  show ?case
    by (cases "blank val"; cases "filled (colB df idx)") (simp_all add: item Cons)
qed

lemma tasks_distinct: "distinct (map fst (collect_tasks df (colA_items df) []))"
proof -
  have "distinct (map fst (colA_items df))"
    by (simp add: colA_items_def)
  then show ?thesis
    by (simp add: collect_tasks_indices distinct_map_filter)
qed

lemma chunks_distinct:
  "b \<in> set (chunks seq n) \<Longrightarrow> distinct (map f seq) \<Longrightarrow> distinct (map f b)"
proof (induction seq n rule: chunks.induct)
  case (1 seq n)
  show ?case
  proof (cases "n = 0 \<or> seq = []")
    case True
    then show ?thesis using "1.prems" by (simp add: chunks.simps)
  next
    case False
    then have "b = take n seq \<or> b \<in> set (chunks (drop n seq) n)"
      using "1.prems" by (subst (asm) chunks.simps) simp
    then show ?thesis
    proof
      assume "b = take n seq"
      then show ?thesis
        using "1.prems"(2) by (simp add: take_map [symmetric])
    next
      assume "b \<in> set (chunks (drop n seq) n)"
      moreover have "distinct (map f (drop n seq))"
        using "1.prems"(2) by (simp add: drop_map [symmetric])
      ultimately show ?thesis
        using False by (intro "1.IH") auto
    qed
  qed
qed

lemma batches_distinct:
  "chunked (collect_tasks df (colA_items df) []) batch_size = Inr batches \<Longrightarrow>
   b \<in> set batches \<Longrightarrow> distinct (map fst b)"
  using chunks_distinct [of b "collect_tasks df (colA_items df) []" "nat batch_size" fst]
    tasks_distinct [of df]
  by (auto simp: chunked_def split: if_splits)

section \<open>Runs of the scripts on tables with rows to skip\<close>

text \<open>
  Claim C1 on the batch script.  Row 0 is already labelled and row 1 is not, so the only
  call is made for row 1; the reply has a line for row 0 as well, and the write loop puts
  its label over the one in the table.  The claim says the cell of row 0 is left as it
  was.
\<close>

theorem batch_run_rewrites_resumed_row:
  "filled (colB rerun_table 0)
   \<and> batch_run remote_two_lines 10 rerun_table =
       (Inr [(Str ''First: ans0 or ans1?'', Str ''ans0''),
             (Str ''Second: ans0 or ans1?'', Str ''ans0'')],
        [([1], build_batch_prompt [(1, ''Second: ans0 or ans1?'', [''ans0'', ''ans1''])])])"
  by code_simp

text \<open>
  Claim C2 on the batch script.  The cell of row 1 holds \<^verbatim>\<open>prior-answer\<close> before the run and
  row 1 is no task; the reply to the batch of row 0 has the line \<^verbatim>\<open>ID=1 ans0\<close>, and after
  the run the cell holds \<^verbatim>\<open>ans0\<close>.  The claim says no write reaches a cell that was filled.
\<close>

theorem batch_run_overwrites_prefilled_cell:
  "colB resume_table 1 = Str ''prior-answer''
   \<and> filled (colB resume_table 1)
   \<and> map fst (collect_tasks resume_table (colA_items resume_table) []) = [0]
   \<and> fst (batch_run remote_two_lines 10 resume_table) =
       Inr [(Str ''Is it ans0 or ans1?'', Str ''ans0''),
            (Str ''ans0 or ans1, which one?'', Str ''ans0'')]"
  by code_simp

text \<open>
  Claim C8 on the batch script.  Rows 0 and 1 have no input (missing, and white space
  only) and no call is made for them; the reply to the batch of row 2 has lines for them,
  and their output cells are written.  The claim says these cells are left untouched.
\<close>

theorem batch_run_writes_blank_rows:
  "blank (colA blank_table 0) \<and> blank (colA blank_table 1)
   \<and> batch_run remote_three_lines 10 blank_table =
       (Inr [(NaN, Str ''ans1''),
             (Str ''   '', Str ''ans1''),
             (Str ''Is it ans0 or ans1?'', Str ''ans0'')],
        [([2], build_batch_prompt [(2, ''Is it ans0 or ans1?'', [''ans0'', ''ans1''])])])"
  by code_simp

text \<open>
  Claim C9.  The output path is the input path with every \<^verbatim>\<open>.xlsx\<close> replaced.  For a
  workbook named \<^verbatim>\<open>data.xlsm\<close> or \<^verbatim>\<open>DATA.XLSX\<close> nothing is replaced and the output path is the
  input path; for \<^verbatim>\<open>data.xlsm\<close>, which the writer accepts, the save (here with the sheet given
  by name) writes over the workbook that was read.  The claim says the output path differs
  from the input path for every input path.
\<close>

theorem out_path_overwrites_input:
  "out_path_results ''data.xlsm'' = ''data.xlsm''
   \<and> out_path_answers ''DATA.XLSX'' = ''DATA.XLSX''
   \<and> out_path_results ''data.xlsx'' = ''data_with_results.xlsx''
   \<and> xlsm_files ''data.xlsm'' = Some rerun_table
   \<and> file_after
        (batch_script plain_writer remote_two_lines 10 ''data.xlsm'' (SheetName ''Sheet1'')
           xlsm_files) ''data.xlsm''
       = Inr (Some [(Str ''First: ans0 or ans1?'', Str ''ans0''),
                    (Str ''Second: ans0 or ans1?'', Str ''ans0'')])"
  by code_simp

text \<open>
  An identifier outside the table ends the run: the example line of the prompt, sent back
  as a result line for a table of two rows, raises \<^verbatim>\<open>IndexError\<close> after the write for row 1,
  and nothing is saved.
\<close>

lemma batch_run_index_error:
  "fst (batch_run remote_example_line 10 rerun_table) = Inl (IndexError 12)
   \<and> file_after
        (batch_script plain_writer remote_example_line 10 ''data.xlsx'' (SheetName ''Sheet1'')
           (Map.empty(''data.xlsx'' \<mapsto> rerun_table))) ''data_with_results.xlsx''
       = Inl (IndexError 12)"
  by code_simp

text \<open>
  With the sheet option left at its default, a writer that starts from a workbook with no
  sheet ends the run at the save.
\<close>

lemma batch_script_default_sheet:
  "file_after
     (batch_script plain_writer remote_two_lines 10 ''data.xlsx'' SheetDefault
        (Map.empty(''data.xlsx'' \<mapsto> rerun_table))) ''data_with_results.xlsx''
     = Inl (IndexError 0)"
  by code_simp

text \<open>
  For \<^verbatim>\<open>DATA.XLSX\<close> the output path is the input path as well, but this writer refuses
  the extension: the run ends at the save with \<^verbatim>\<open>ValueError\<close> and the workbook is not
  written over.
\<close>

lemma batch_script_refused_extension:
  "out_path_results ''DATA.XLSX'' = ''DATA.XLSX''
   \<and> file_after
        (batch_script plain_writer remote_two_lines 10 ''DATA.XLSX'' (SheetName ''Sheet1'')
           (Map.empty(''DATA.XLSX'' \<mapsto> rerun_table))) ''DATA.XLSX''
       = Inl ValueError"
  by code_simp

end
